theory Spec2Isabelle
  imports Complex_Main "HOL-Library.AList"
begin

section \<open>Host values: dates, week starts, decimal numerals\<close>

text \<open>
  The aggregation code of \<^verbatim>\<open>utils/github.js\<close> reads date fields of the objects it is
  handed and passes them to \<^verbatim>\<open>new Date(...)\<close>.  What the code observes of such a
  field is whether it is truthy and which time value (milliseconds since the epoch, or
  NaN) the constructor yields:
  \<^item> \<open>DNull\<close>: JSON \<^verbatim>\<open>null\<close>; falsy, and \<^verbatim>\<open>new Date(null)\<close> is the epoch;
  \<^item> \<open>DMissing\<close>: \<^verbatim>\<open>undefined\<close> or the empty string; falsy, time value NaN;
  \<^item> \<open>DInvalid\<close>: a non-empty string that does not parse; truthy, time value NaN;
  \<^item> \<open>DAt t\<close>: a string that parses to the instant \<open>t\<close>.
  A number that may be NaN is an \<open>int option\<close>, \<open>None\<close> being NaN.  All other
  numbers of the code are integers below \<open>2^53\<close> in practice and are modelled as \<open>int\<close>.
\<close>

datatype jsdate = DNull | DMissing | DInvalid | DAt int

fun truthy_date :: "jsdate \<Rightarrow> bool" where
  "truthy_date DNull = False"
| "truthy_date DMissing = False"
| "truthy_date DInvalid = True"
| "truthy_date (DAt t) = True"

fun getTime :: "jsdate \<Rightarrow> int option" where
  "getTime DNull = Some 0"
| "getTime DMissing = None"
| "getTime DInvalid = None"
| "getTime (DAt t) = Some t"

definition date_or :: "jsdate \<Rightarrow> jsdate \<Rightarrow> jsdate" where
  \<comment> \<open>\<^verbatim>\<open>a || b\<close> on two date fields\<close>
  "date_or a b = (if truthy_date a then a else b)"

text \<open>
  Week starts.  The code computes, three times in the same words,
  \<^verbatim>\<open>
  const weekStart = new Date(d);
  weekStart.setHours(0, 0, 0, 0);
  weekStart.setDate(weekStart.getDate() - weekStart.getDay());
  const weekTs = Math.floor(weekStart.getTime() / 1000);
  \<close>
  in the host's local time.  The host's time zone is a parameter \<open>tz\<close>: local time is
  UTC plus \<open>tz\<close> minutes, a constant offset (a zone without daylight-saving changes), so
  a local day has 86400000 ms.  Day 0 of the epoch is a Thursday (weekday 4, Sunday
  being 0).
\<close>

definition msPerDay :: int where
  "msPerDay = 24 * 60 * 60 * 1000"

definition secPerWeek :: int where
  "secPerWeek = 7 * 24 * 60 * 60"

definition localTime :: "int \<Rightarrow> int \<Rightarrow> int" where
  "localTime tz t = t + tz * 60000"

definition getDay :: "int \<Rightarrow> int \<Rightarrow> int" where
  "getDay tz t = (localTime tz t div msPerDay + 4) mod 7"

definition setHours0 :: "int \<Rightarrow> int \<Rightarrow> int" where
  \<comment> \<open>\<^verbatim>\<open>setHours(0, 0, 0, 0)\<close>: the instant of local midnight of the same local day\<close>
  "setHours0 tz t = (localTime tz t - localTime tz t mod msPerDay) - tz * 60000"

definition weekStart :: "int \<Rightarrow> int \<Rightarrow> int" where
  \<comment> \<open>the instant (ms) of the local Sunday midnight on or before \<open>t\<close>\<close>
  "weekStart tz t = (let m = setHours0 tz t in m - getDay tz m * msPerDay)"

definition weekTsOf :: "int \<Rightarrow> int \<Rightarrow> int" where
  "weekTsOf tz t = weekStart tz t div 1000"

definition weekTsDate :: "int \<Rightarrow> jsdate \<Rightarrow> int option" where
  \<comment> \<open>the week key of a date field; NaN for an invalid date\<close>
  "weekTsDate tz d = map_option (weekTsOf tz) (getTime d)"

text \<open>Decimal numerals, for the template string \<^verbatim>\<open>`PR #${pr.number}`\<close>.\<close>

function digits_of :: "int \<Rightarrow> string" where
  "digits_of n =
     (if n < 10 then [''0123456789'' ! nat n]
      else digits_of (n div 10) @ [''0123456789'' ! nat (n mod 10)])"
  by pat_completeness auto
termination
  by (relation "measure nat") auto

declare digits_of.simps [simp del]

definition show_int :: "int \<Rightarrow> string" where
  "show_int i = (if i < 0 then CHR ''-'' # digits_of (- i) else digits_of i)"

section \<open>The data handed to the aggregator\<close>

text \<open>
  One element of \<^verbatim>\<open>repoDataArray\<close> is \<^verbatim>\<open>{ repoName, commits, prs, reviews }\<close>, as
  \<^verbatim>\<open>fetchAllStats\<close> builds it from \<^verbatim>\<open>fetchCommits\<close>, \<^verbatim>\<open>fetchPullRequests\<close> and
  \<^verbatim>\<open>fetchReviews\<close>.  A login that is \<^verbatim>\<open>undefined\<close> is \<open>None\<close>; the empty string is
  falsy as well.  The enrichment fields of a pull request are \<open>None\<close> while
  \<^verbatim>\<open>undefined\<close>.  A review entry is either a bare count (the old cache format) or
  the object \<^verbatim>\<open>{ count, submitted_at, prs }\<close>.
\<close>

record commit =
  c_sha :: string
  c_user :: "string option"
  c_avatar_url :: "string option"
  c_message :: string
  c_date :: jsdate
  c_url :: string

record pull_request =
  p_number :: int
  p_user :: "string option"
  p_avatar_url :: "string option"
  p_created_at :: jsdate
  p_merged_at :: jsdate
  p_state :: string
  p_title :: string
  p_url :: string
  p_additions :: "int option"
  p_deletions :: "int option"
  p_commits :: "int option"
  p_changed_files :: "int option"

record pr_ref =
  r_number :: int
  r_title :: string
  r_url :: string

datatype review_info =
  ReviewCount int
| ReviewInfo int "jsdate list" "pr_ref list"

record repo_data =
  repoName :: string
  commits_of :: "commit list"
  prs_of :: "pull_request list"
  reviews_of :: "(string \<times> review_info) list"

section \<open>The accumulator \<^verbatim>\<open>userMap\<close>\<close>

record bucket =
  b_additions :: int
  b_deletions :: int
  b_commits :: int
  b_pullRequests :: int
  b_reviews :: int

record commit_item =
  ci_sha :: string
  ci_message :: string
  ci_url :: string
  ci_date :: jsdate
  ci_repo :: string

record pr_item =
  pi_number :: int
  pi_title :: string
  pi_url :: string
  pi_state :: string
  pi_merged :: bool
  pi_date :: jsdate
  pi_repo :: string

record review_item =
  ri_number :: int
  ri_title :: string
  ri_url :: string
  ri_repo :: string

text \<open>
  The entry of one login.  It has no \<^verbatim>\<open>net\<close> field: the code derives that only when
  it emits the output record.  \<^verbatim>\<open>reposContributed\<close> is a \<^verbatim>\<open>Set\<close>, here a list
  without repetitions; \<^verbatim>\<open>weeklyData\<close> is an object keyed by the week timestamp (the
  key \<open>None\<close> is the property \<^verbatim>\<open>"NaN"\<close>).
\<close>

record user_stats =
  s_user :: string
  s_avatarUrl :: "string option"
  s_additions :: int
  s_deletions :: int
  s_commits :: int
  s_pullRequests :: int
  s_reviews :: int
  s_reposContributed :: "string list"
  s_weeklyData :: "(int option \<times> bucket) list"
  s_prsList :: "pr_item list"
  s_reviewsList :: "review_item list"
  s_commitsList :: "commit_item list"

type_synonym user_map = "(string \<times> user_stats) list"

text \<open>
  \<^verbatim>\<open>userMap\<close> is made by the literal \<^verbatim>\<open>{}\<close>, so it inherits from \<^verbatim>\<open>Object.prototype\<close>.
  For a key that names a property of the prototype, \<^verbatim>\<open>map[key]\<close> yields that property (a
  function, or the prototype itself for \<^verbatim>\<open>__proto__\<close>) though the map has no entry of its
  own under the key: a truthy value that has none of the properties of an entry.  The
  same holds of \<^verbatim>\<open>authorMap\<close> in \<^verbatim>\<open>fetchCommitsAsStats\<close>.
\<close>

definition inherited :: "string \<Rightarrow> bool" where
  "inherited k =
     (k \<in> set [''constructor'', ''toString'', ''toLocaleString'', ''valueOf'', ''hasOwnProperty'',
                ''isPrototypeOf'', ''propertyIsEnumerable'', ''__proto__'', ''__defineGetter__'',
                ''__defineSetter__'', ''__lookupGetter__'', ''__lookupSetter__''])"

fun foldE :: "('a \<Rightarrow> 'b \<Rightarrow> 'e + 'a) \<Rightarrow> 'a \<Rightarrow> 'b list \<Rightarrow> 'e + 'a" where
  \<comment> \<open>\<^verbatim>\<open>xs.forEach(f)\<close> with a callback that may throw: the first throw ends the loop\<close>
  "foldE f a [] = Inr a"
| "foldE f a (x # xs) = (case f a x of Inl e \<Rightarrow> Inl e | Inr a' \<Rightarrow> foldE f a' xs)"

definition newUser :: "string \<Rightarrow> string option \<Rightarrow> user_stats" where
  "newUser u av =
     \<lparr> s_user = u, s_avatarUrl = av, s_additions = 0, s_deletions = 0, s_commits = 0,
       s_pullRequests = 0, s_reviews = 0, s_reposContributed = [], s_weeklyData = [],
       s_prsList = [], s_reviewsList = [], s_commitsList = [] \<rparr>"

definition ensureUser :: "string \<Rightarrow> string option \<Rightarrow> user_map \<Rightarrow> user_map" where
  \<comment> \<open>\<^verbatim>\<open>if (!userMap[user]) userMap[user] = {...}\<close>\<close>
  "ensureUser u av um = (if map_of um u = None then um @ [(u, newUser u av)] else um)"

definition modifyUser :: "string \<Rightarrow> (user_stats \<Rightarrow> user_stats) \<Rightarrow> user_map \<Rightarrow> user_map" where
  \<comment> \<open>the in-place updates of \<^verbatim>\<open>userMap[user]\<close>\<close>
  "modifyUser u f um = map (\<lambda>(k, s). if k = u then (k, f s) else (k, s)) um"

definition zeroBucket :: bucket where
  "zeroBucket =
     \<lparr> b_additions = 0, b_deletions = 0, b_commits = 0, b_pullRequests = 0, b_reviews = 0 \<rparr>"

definition bumpWeek ::
  "int option \<Rightarrow> (bucket \<Rightarrow> bucket) \<Rightarrow> (int option \<times> bucket) list \<Rightarrow> (int option \<times> bucket) list"
where
  \<comment> \<open>\<^verbatim>\<open>if (!weeklyData[weekTs]) weeklyData[weekTs] = {0,...}\<close>, then the update\<close>
  "bumpWeek k f wd =
     map (\<lambda>(k', b). if k' = k then (k', f b) else (k', b))
       (if map_of wd k = None then wd @ [(k, zeroBucket)] else wd)"

section \<open>\<^verbatim>\<open>aggregateStats\<close>: the three passes over one repository\<close>

definition truthy_days :: "int option \<Rightarrow> bool" where
  \<comment> \<open>\<^verbatim>\<open>daysFilter\<close> as a condition: \<^verbatim>\<open>null\<close> and 0 are falsy\<close>
  "truthy_days df = (case df of None \<Rightarrow> False | Some d \<Rightarrow> d \<noteq> 0)"

definition cutoffMs :: "int \<Rightarrow> int option \<Rightarrow> int" where
  \<comment> \<open>\<^verbatim>\<open>daysFilter ? Date.now() - daysFilter * 24 * 60 * 60 * 1000 : 0\<close>\<close>
  "cutoffMs now df = (case df of None \<Rightarrow> 0 | Some d \<Rightarrow> if d \<noteq> 0 then now - d * msPerDay else 0)"

definition cutoffTimestamp :: "int \<Rightarrow> int option \<Rightarrow> int" where
  \<comment> \<open>\<^verbatim>\<open>daysFilter ? Math.floor((Date.now() - daysFilter * 24 * 60 * 60 * 1000) / 1000) : 0\<close>\<close>
  "cutoffTimestamp now df =
     (case df of None \<Rightarrow> 0 | Some d \<Rightarrow> if d \<noteq> 0 then (now - d * msPerDay) div 1000 else 0)"

definition beforeCutoff :: "int \<Rightarrow> int option \<Rightarrow> jsdate \<Rightarrow> bool" where
  \<comment> \<open>the guard \<^verbatim>\<open>daysFilter && date\<close> with \<^verbatim>\<open>Math.floor(new Date(date).getTime() / 1000) < cutoffTimestamp\<close>;
      a comparison with NaN is false\<close>
  "beforeCutoff now df d =
     (truthy_days df \<and> truthy_date d \<and>
      (case getTime d of None \<Rightarrow> False | Some t \<Rightarrow> t div 1000 < cutoffTimestamp now df))"

definition commitItem :: "string \<Rightarrow> commit \<Rightarrow> commit_item" where
  "commitItem rn c =
     \<lparr> ci_sha = take 7 (c_sha c), ci_message = c_message c, ci_url = c_url c,
       ci_date = c_date c, ci_repo = rn \<rparr>"

definition addCommit :: "int \<Rightarrow> string \<Rightarrow> commit \<Rightarrow> user_stats \<Rightarrow> user_stats" where
  "addCommit tz rn c s =
     s \<lparr> s_commits := s_commits s + 1,
         s_reposContributed := List.insert rn (s_reposContributed s),
         s_commitsList :=
           (if length (s_commitsList s) < 20 then s_commitsList s @ [commitItem rn c]
            else s_commitsList s),
         s_weeklyData :=
           bumpWeek (weekTsDate tz (c_date c)) (\<lambda>b. b \<lparr> b_commits := b_commits b + 1 \<rparr>)
             (s_weeklyData s) \<rparr>"

definition processCommit ::
  "int \<Rightarrow> int \<Rightarrow> int option \<Rightarrow> string \<Rightarrow> user_map \<Rightarrow> commit \<Rightarrow> user_map"
where
  "processCommit now tz df rn um c =
     (case c_user c of
        None \<Rightarrow> um
      | Some u \<Rightarrow>
          if u = [] then um
          else if beforeCutoff now df (c_date c) then um
          else modifyUser u (addCommit tz rn c) (ensureUser u (c_avatar_url c) um))"

definition prTitle :: "int \<Rightarrow> string \<Rightarrow> string" where
  \<comment> \<open>\<^verbatim>\<open>pr.title || `PR #${pr.number}`\<close>\<close>
  "prTitle n t = (if t = [] then ''PR #'' @ show_int n else t)"

definition prItem :: "string \<Rightarrow> pull_request \<Rightarrow> pr_item" where
  "prItem rn p =
     \<lparr> pi_number = p_number p, pi_title = prTitle (p_number p) (p_title p), pi_url = p_url p,
       pi_state = p_state p, pi_merged = truthy_date (p_merged_at p),
       pi_date = date_or (p_merged_at p) (p_created_at p), pi_repo = rn \<rparr>"

definition hasLineStats :: "pull_request \<Rightarrow> bool" where
  \<comment> \<open>\<^verbatim>\<open>pr.merged_at && pr.additions !== undefined\<close>\<close>
  "hasLineStats p = (truthy_date (p_merged_at p) \<and> p_additions p \<noteq> None)"

definition orZero :: "int option \<Rightarrow> int" where
  \<comment> \<open>\<^verbatim>\<open>x || 0\<close> on a number that may be undefined\<close>
  "orZero x = (case x of None \<Rightarrow> 0 | Some v \<Rightarrow> v)"

definition addPR :: "int \<Rightarrow> string \<Rightarrow> pull_request \<Rightarrow> user_stats \<Rightarrow> user_stats" where
  "addPR tz rn p s =
     s \<lparr> s_pullRequests := s_pullRequests s + 1,
         s_reposContributed := List.insert rn (s_reposContributed s),
         s_prsList :=
           (if length (s_prsList s) < 20 then s_prsList s @ [prItem rn p] else s_prsList s),
         s_additions :=
           (if hasLineStats p then s_additions s + orZero (p_additions p) else s_additions s),
         s_deletions :=
           (if hasLineStats p then s_deletions s + orZero (p_deletions p) else s_deletions s),
         s_weeklyData :=
           bumpWeek (weekTsDate tz (date_or (p_merged_at p) (p_created_at p)))
             (\<lambda>b. if hasLineStats p
                  then b \<lparr> b_pullRequests := b_pullRequests b + 1,
                           b_additions := b_additions b + orZero (p_additions p),
                           b_deletions := b_deletions b + orZero (p_deletions p) \<rparr>
                  else b \<lparr> b_pullRequests := b_pullRequests b + 1 \<rparr>)
             (s_weeklyData s) \<rparr>"

definition processPR ::
  "int \<Rightarrow> int \<Rightarrow> int option \<Rightarrow> string \<Rightarrow> user_map \<Rightarrow> pull_request \<Rightarrow> user_map"
where
  "processPR now tz df rn um p =
     (case p_user p of
        None \<Rightarrow> um
      | Some u \<Rightarrow>
          if u = [] then um
          else if beforeCutoff now df (date_or (p_merged_at p) (p_created_at p)) then um
          else modifyUser u (addPR tz rn p) (ensureUser u (p_avatar_url p) um))"

definition reviewItem :: "string \<Rightarrow> pr_ref \<Rightarrow> review_item" where
  \<comment> \<open>\<^verbatim>\<open>{ ...prInfo, repo: repoName }\<close>\<close>
  "reviewItem rn r =
     \<lparr> ri_number = r_number r, ri_title = r_title r, ri_url = r_url r, ri_repo = rn \<rparr>"

definition addReviewedPR :: "string \<Rightarrow> review_item list \<Rightarrow> pr_ref \<Rightarrow> review_item list" where
  "addReviewedPR rn rl r =
     (if length rl < 20 \<and> find (\<lambda>p. ri_number p = r_number r \<and> ri_repo p = rn) rl = None
      then rl @ [reviewItem rn r] else rl)"

definition addReviewDate :: "int \<Rightarrow> int \<Rightarrow> int option \<Rightarrow> user_stats \<Rightarrow> jsdate \<Rightarrow> user_stats" where
  \<comment> \<open>one timestamp of \<^verbatim>\<open>submitted_at\<close>; here the cutoff is compared in milliseconds\<close>
  "addReviewDate now tz df s d =
     (if truthy_days df \<and> (case getTime d of None \<Rightarrow> False | Some t \<Rightarrow> t < cutoffMs now df)
      then s
      else s \<lparr> s_reviews := s_reviews s + 1,
               s_weeklyData :=
                 bumpWeek (weekTsDate tz d) (\<lambda>b. b \<lparr> b_reviews := b_reviews b + 1 \<rparr>)
                   (s_weeklyData s) \<rparr>)"

fun reviewCount :: "review_info \<Rightarrow> int" where
  "reviewCount (ReviewCount n) = n"
| "reviewCount (ReviewInfo n ds ps) = n"

fun submittedDates :: "review_info \<Rightarrow> jsdate list" where
  "submittedDates (ReviewCount n) = []"
| "submittedDates (ReviewInfo n ds ps) = ds"

fun reviewedPRs :: "review_info \<Rightarrow> pr_ref list" where
  "reviewedPRs (ReviewCount n) = []"
| "reviewedPRs (ReviewInfo n ds ps) = ps"

definition addReviews ::
  "int \<Rightarrow> int \<Rightarrow> int option \<Rightarrow> string \<Rightarrow> review_info \<Rightarrow> user_stats \<Rightarrow> user_stats"
where
  "addReviews now tz df rn info s =
     (let s1 = s \<lparr> s_reviewsList := foldl (addReviewedPR rn) (s_reviewsList s) (reviewedPRs info) \<rparr>;
          s2 = (if submittedDates info \<noteq> []
                then foldl (addReviewDate now tz df) s1 (submittedDates info)
                else s1 \<lparr> s_reviews := s_reviews s1 + reviewCount info \<rparr>)
      in if s_reviews s2 > 0
         then s2 \<lparr> s_reposContributed := List.insert rn (s_reposContributed s2) \<rparr>
         else s2)"

definition processReview ::
  "int \<Rightarrow> int \<Rightarrow> int option \<Rightarrow> string \<Rightarrow> user_map \<Rightarrow> string \<times> review_info \<Rightarrow> user_map"
where
  "processReview now tz df rn um e =
     modifyUser (fst e) (addReviews now tz df rn (snd e)) (ensureUser (fst e) None um)"

definition processRepo :: "int \<Rightarrow> int \<Rightarrow> int option \<Rightarrow> user_map \<Rightarrow> repo_data \<Rightarrow> user_map" where
  "processRepo now tz df um rd =
     foldl (processReview now tz df (repoName rd))
       (foldl (processPR now tz df (repoName rd))
          (foldl (processCommit now tz df (repoName rd)) um (commits_of rd))
          (prs_of rd))
       (reviews_of rd)"

definition buildUserMap :: "int \<Rightarrow> int \<Rightarrow> int option \<Rightarrow> repo_data list \<Rightarrow> user_map" where
  "buildUserMap now tz df rds = foldl (processRepo now tz df) [] rds"

section \<open>\<^verbatim>\<open>aggregateStats\<close>: emitting the output records\<close>

text \<open>
  \<^verbatim>\<open>Array.prototype.sort\<close> with a comparator is stable.  The model is the stable
  insertion sort; a comparator result that is NaN (\<open>None\<close>) counts as 0, as the
  language prescribes.  For a comparator that is a consistent order this is the result
  in every engine; on elements whose comparison is NaN the language leaves the order
  to the engine, and the model fixes this one.
\<close>

fun jsInsert :: "('a \<Rightarrow> 'a \<Rightarrow> int option) \<Rightarrow> 'a \<Rightarrow> 'a list \<Rightarrow> 'a list" where
  "jsInsert cmp x [] = [x]"
| "jsInsert cmp x (y # ys) =
     (if (case cmp x y of None \<Rightarrow> False | Some v \<Rightarrow> v > 0) then y # jsInsert cmp x ys
      else x # y # ys)"

definition jsSort :: "('a \<Rightarrow> 'a \<Rightarrow> int option) \<Rightarrow> 'a list \<Rightarrow> 'a list" where
  "jsSort cmp xs = foldr (jsInsert cmp) xs []"

definition dateDesc :: "jsdate \<Rightarrow> jsdate \<Rightarrow> int option" where
  \<comment> \<open>\<^verbatim>\<open>(a, b) => new Date(b.date) - new Date(a.date)\<close>, on the two date fields\<close>
  "dateDesc a b =
     (case getTime b of None \<Rightarrow> None
      | Some tb \<Rightarrow> (case getTime a of None \<Rightarrow> None | Some ta \<Rightarrow> Some (tb - ta)))"

record week_entry =
  week :: "int option"
  w_additions :: int
  w_deletions :: int
  w_commits :: int
  w_pullRequests :: int
  w_reviews :: int

definition withWeek :: "int option \<times> bucket \<Rightarrow> week_entry" where
  \<comment> \<open>\<^verbatim>\<open>([timestamp, data]) => ({ week: parseInt(timestamp), ...data })\<close>\<close>
  "withWeek e =
     \<lparr> week = fst e, w_additions = b_additions (snd e), w_deletions = b_deletions (snd e),
       w_commits = b_commits (snd e), w_pullRequests = b_pullRequests (snd e),
       w_reviews = b_reviews (snd e) \<rparr>"

definition weekAsc :: "week_entry \<Rightarrow> week_entry \<Rightarrow> int option" where
  \<comment> \<open>\<^verbatim>\<open>(a, b) => a.week - b.week\<close>\<close>
  "weekAsc a b =
     (case week a of None \<Rightarrow> None
      | Some wa \<Rightarrow> (case week b of None \<Rightarrow> None | Some wb \<Rightarrow> Some (wa - wb)))"

definition normalizeWeek :: "int \<Rightarrow> int option \<Rightarrow> int option" where
  \<comment> \<open>the week start of \<^verbatim>\<open>new Date(w.week * 1000)\<close>, in seconds\<close>
  "normalizeWeek tz w = (case w of None \<Rightarrow> None | Some k \<Rightarrow> Some (weekTsOf tz (k * 1000)))"

definition mergeWeek ::
  "int \<Rightarrow> (int option \<times> week_entry) list \<Rightarrow> week_entry \<Rightarrow> (int option \<times> week_entry) list"
where
  "mergeWeek tz wm w =
     (let n = normalizeWeek tz (week w) in
      if map_of wm n = None then wm @ [(n, w \<lparr> week := n \<rparr>)]
      else map (\<lambda>(k, e). if k = n
                  then (k, e \<lparr> w_commits := w_commits e + w_commits w,
                               w_pullRequests := w_pullRequests e + w_pullRequests w,
                               w_reviews := w_reviews e + w_reviews w,
                               w_additions := w_additions e + w_additions w,
                               w_deletions := w_deletions e + w_deletions w \<rparr>)
                  else (k, e)) wm)"

definition maxWeeks :: "int option \<Rightarrow> int" where
  \<comment> \<open>\<^verbatim>\<open>daysFilter ? Math.ceil(daysFilter / 7) : 52\<close>\<close>
  "maxWeeks df = (case df of None \<Rightarrow> 52 | Some d \<Rightarrow> if d \<noteq> 0 then - ((- d) div 7) else 52)"

definition zeroWeek :: "int \<Rightarrow> week_entry" where
  "zeroWeek ts =
     \<lparr> week = Some ts, w_additions = 0, w_deletions = 0, w_commits = 0, w_pullRequests = 0,
       w_reviews = 0 \<rparr>"

definition fillWeeks :: "int \<Rightarrow> int \<Rightarrow> (int option \<times> week_entry) list \<Rightarrow> week_entry list" where
  \<comment> \<open>\<^verbatim>\<open>for (let i = 0; i < maxWeeks; i++)\<close>: the entry of \<^verbatim>\<open>weekMap[ts]\<close>, or zeros\<close>
  "fillWeeks startTs mw wm =
     map (\<lambda>i. let ts = startTs + int i * secPerWeek
               in case map_of wm (Some ts) of Some e \<Rightarrow> e | None \<Rightarrow> zeroWeek ts)
       [0 ..< nat mw]"

definition endTs :: "int \<Rightarrow> int \<Rightarrow> int" where
  \<comment> \<open>the start of the current week: the week start of \<^verbatim>\<open>new Date()\<close>\<close>
  "endTs now tz = weekTsOf tz now"

definition startTs :: "int \<Rightarrow> int \<Rightarrow> int option \<Rightarrow> int" where
  "startTs now tz df = endTs now tz - (maxWeeks df - 1) * secPerWeek"

definition weeklyArray ::
  "int \<Rightarrow> int \<Rightarrow> int option \<Rightarrow> (int option \<times> bucket) list \<Rightarrow> week_entry list"
where
  "weeklyArray now tz df wd =
     fillWeeks (startTs now tz df) (maxWeeks df)
       (foldl (mergeWeek tz) [] (jsSort weekAsc (map withWeek wd)))"

record contributor =
  user :: string
  avatarUrl :: "string option"
  additions :: int
  deletions :: int
  net :: int
  commits :: int
  pullRequests :: int
  reviews :: int
  reposCount :: nat
  weeklyData :: "week_entry list"
  prsList :: "pr_item list"
  reviewsList :: "review_item list"
  commitsList :: "commit_item list"

definition hasActivity :: "user_stats \<Rightarrow> bool" where
  "hasActivity s =
     (s_additions s > 0 \<or> s_deletions s > 0 \<or> s_commits s > 0 \<or> s_pullRequests s > 0 \<or>
      s_reviews s > 0)"

definition emit :: "int \<Rightarrow> int \<Rightarrow> int option \<Rightarrow> user_stats \<Rightarrow> contributor" where
  "emit now tz df s =
     \<lparr> user = s_user s, avatarUrl = s_avatarUrl s, additions = s_additions s,
       deletions = s_deletions s, net = s_additions s - s_deletions s, commits = s_commits s,
       pullRequests = s_pullRequests s, reviews = s_reviews s,
       reposCount = length (s_reposContributed s),
       weeklyData = weeklyArray now tz df (s_weeklyData s),
       prsList = jsSort (\<lambda>a b. dateDesc (pi_date a) (pi_date b)) (s_prsList s),
       reviewsList = s_reviewsList s,
       commitsList = jsSort (\<lambda>a b. dateDesc (ci_date a) (ci_date b)) (s_commitsList s) \<rparr>"

definition aggregateStats :: "int \<Rightarrow> int \<Rightarrow> repo_data list \<Rightarrow> int option \<Rightarrow> contributor list" where
  \<comment> \<open>\<^verbatim>\<open>aggregateStats(repoDataArray, daysFilter)\<close> at the instant \<open>now\<close> in the zone \<open>tz\<close>\<close>
  "aggregateStats now tz repoDataArray daysFilter =
     map (emit now tz daysFilter)
       (filter hasActivity (map snd (buildUserMap now tz daysFilter repoDataArray)))"

section \<open>A worked scenario\<close>

text \<open>
  The scenario of the specification, at \<open>now = 1700000000000\<close> (14 November 2023,
  22:13:20 UTC) in the zone UTC, with a window of 7 days: repository A has three
  commits by alice, two inside the window and one outside, and one merged pull
  request by bob with 10 additions and 2 deletions; carol reviewed it inside the
  window, dave reviewed it before the window.  Repository B is empty.
\<close>

definition scenarioNow :: int where
  "scenarioNow = 1700000000000"

definition aliceCommit :: "string \<Rightarrow> int \<Rightarrow> commit" where
  "aliceCommit sha t =
     \<lparr> c_sha = sha, c_user = Some ''alice'', c_avatar_url = Some ''https://a/alice.png'',
       c_message = ''work'', c_date = DAt t, c_url = ''https://a/c'' \<rparr>"

definition bobPR :: pull_request where
  "bobPR =
     \<lparr> p_number = 5, p_user = Some ''bob'', p_avatar_url = None,
       p_created_at = DAt 1699800000000, p_merged_at = DAt 1699850000000,
       p_state = ''closed'', p_title = [], p_url = ''https://a/pr5'',
       p_additions = Some 10, p_deletions = Some 2, p_commits = Some 1,
       p_changed_files = Some 1 \<rparr>"

definition prFive :: pr_ref where
  "prFive = \<lparr> r_number = 5, r_title = ''PR #5'', r_url = ''https://a/pr5'' \<rparr>"

definition scenarioRepos :: "repo_data list" where
  "scenarioRepos =
     [\<lparr> repoName = ''A'',
        commits_of =
          [aliceCommit ''0123456789abcdef'' 1699900000000,
           aliceCommit ''1111111111111111'' 1699500000000,
           aliceCommit ''2222222222222222'' 1690000000000],
        prs_of = [bobPR],
        reviews_of =
          [(''carol'', ReviewInfo 1 [DAt 1699860000000] [prFive]),
           (''dave'', ReviewInfo 1 [DAt 1690000000000] [prFive])] \<rparr>,
      \<lparr> repoName = ''B'', commits_of = [], prs_of = [], reviews_of = [] \<rparr>]"

definition scenarioOut :: "contributor list" where
  "scenarioOut = aggregateStats scenarioNow 0 scenarioRepos (Some 7)"

section \<open>Notions used to state the properties\<close>

text \<open>
  The keys of \<^verbatim>\<open>userMap\<close> are distinct (it is an object), and the entry under a
  login carries that login.
\<close>

definition um_inv :: "user_map \<Rightarrow> bool" where
  "um_inv um = (distinct (map fst um) \<and> (\<forall>(k, s) \<in> set um. s_user s = k))"

text \<open>
  A commit is counted for the login \<open>u\<close> when the two guards at the head of the commit
  loop let it through.  \<open>commitsOfUser\<close> reads \<^verbatim>\<open>userMap[u].commits\<close>, 0 when there
  is no entry.
\<close>

definition commitCounted :: "int \<Rightarrow> int option \<Rightarrow> string \<Rightarrow> commit \<Rightarrow> bool" where
  "commitCounted now df u c =
     (c_user c = Some u \<and> u \<noteq> [] \<and> \<not> beforeCutoff now df (c_date c))"

definition commitsOfUser :: "user_map \<Rightarrow> string \<Rightarrow> int" where
  "commitsOfUser um u = (case map_of um u of None \<Rightarrow> 0 | Some s \<Rightarrow> s_commits s)"

text \<open>
  A second instant, half a second past a whole second, and a commit by alice dated one
  millisecond before the cutoff of a 7-day window at that instant.
\<close>

definition lateCommit :: commit where
  "lateCommit = aliceCommit ''3333333333333333'' (1700000000500 - 7 * 86400000 - 1)"

definition lateRepos :: "repo_data list" where
  "lateRepos =
     [\<lparr> repoName = ''A'', commits_of = [lateCommit], prs_of = [], reviews_of = [] \<rparr>]"





text \<open>
  Two repositories for the recent-items lists: the first holds 20 commits by alice
  from September 2023, the second a single commit by alice from November 2023.
\<close>

definition oldCommits :: "commit list" where
  "oldCommits = map (\<lambda>i. aliceCommit ''aaaaaaaaaaaaaaaa'' (1695000000000 + int i * 1000)) [0 ..< 20]"

definition newCommit :: commit where
  "newCommit = aliceCommit ''bbbbbbbbbbbbbbbb'' 1699900000000"

definition recentRepos :: "repo_data list" where
  "recentRepos =
     [\<lparr> repoName = ''A'', commits_of = oldCommits, prs_of = [], reviews_of = [] \<rparr>,
      \<lparr> repoName = ''B'', commits_of = [newCommit], prs_of = [], reviews_of = [] \<rparr>]"

definition lists_bounded :: "user_stats \<Rightarrow> bool" where
  "lists_bounded s =
     (length (s_commitsList s) \<le> 20 \<and> length (s_prsList s) \<le> 20 \<and>
      length (s_reviewsList s) \<le> 20)"

definition um_bounded :: "user_map \<Rightarrow> bool" where
  "um_bounded um = list_all (\<lambda>e. lists_bounded (snd e)) um"

text \<open>
  With valid dates the final sort puts the kept commits and the kept pull requests
  most recent first.
\<close>

definition validDate :: "jsdate \<Rightarrow> bool" where
  "validDate d = (getTime d \<noteq> None)"

definition newerOrEq :: "jsdate \<Rightarrow> jsdate \<Rightarrow> bool" where
  "newerOrEq a b = (case getTime a of None \<Rightarrow> False
     | Some ta \<Rightarrow> (case getTime b of None \<Rightarrow> False | Some tb \<Rightarrow> tb \<le> ta))"

text \<open>
  \<^verbatim>\<open>localStorage\<close> is an ordered list of key/value pairs of strings with a quota.  The
  quota is modelled as a bound on the total number of characters of the keys and
  values held; \<^verbatim>\<open>setItem\<close> throws \<^verbatim>\<open>QuotaExceededError\<close> (here: returns \<open>None\<close>) when
  the store would exceed it after the write.
\<close>

record storage =
  items :: "(string \<times> string) list"
  capacity :: int

definition used :: "(string \<times> string) list \<Rightarrow> int" where
  "used kvs = sum_list (map (\<lambda>(k, v). int (length k) + int (length v)) kvs)"

definition getItem :: "storage \<Rightarrow> string \<Rightarrow> string option" where
  "getItem st k = map_of (items st) k"

definition removeItem :: "string \<Rightarrow> storage \<Rightarrow> storage" where
  "removeItem k st = st \<lparr> items := filter (\<lambda>e. fst e \<noteq> k) (items st) \<rparr>"

definition setItem :: "storage \<Rightarrow> string \<Rightarrow> string \<Rightarrow> storage option" where
  "setItem st k v =
     (let kvs = AList.update k v (items st)
      in if used kvs \<le> capacity st then Some (st \<lparr> items := kvs \<rparr>) else None)"

definition CACHE_PREFIX :: string where
  "CACHE_PREFIX = ''github_leaderboard_cache_''"

definition CACHE_EXPIRY_MS :: int where
  "CACHE_EXPIRY_MS = 30 * 60 * 1000"

text \<open>
  \<^verbatim>\<open>JSON.stringify\<close> and \<^verbatim>\<open>JSON.parse\<close> belong to the host and are parameters of the
  cache functions.  \<open>stringify data now\<close> is the text of
  \<^verbatim>\<open>JSON.stringify({ data, timestamp: Date.now() })\<close>, \<open>None\<close> when it throws.
  \<open>parse s\<close> is the pair \<^verbatim>\<open>{ data, timestamp }\<close> read off \<^verbatim>\<open>JSON.parse(s)\<close>: \<open>None\<close>
  when parsing or destructuring throws; a \<^verbatim>\<open>data\<close> that is \<^verbatim>\<open>null\<close> or
  \<^verbatim>\<open>undefined\<close> is \<open>None\<close>, and so is a \<^verbatim>\<open>timestamp\<close> for which
  \<^verbatim>\<open>Date.now() - timestamp\<close> is NaN.
\<close>

type_synonym 'v stringify = "'v \<Rightarrow> int \<Rightarrow> string option"
type_synonym 'v parse = "string \<Rightarrow> ('v option \<times> int option) option"
type_synonym parse_ts = "string \<Rightarrow> int option option"

definition expired :: "int \<Rightarrow> int option \<Rightarrow> bool" where
  \<comment> \<open>\<^verbatim>\<open>Date.now() - timestamp > CACHE_EXPIRY_MS\<close>\<close>
  "expired now ts = (case ts of None \<Rightarrow> False | Some t \<Rightarrow> now - t > CACHE_EXPIRY_MS)"

definition getFromCache :: "'v parse \<Rightarrow> int \<Rightarrow> string \<Rightarrow> storage \<Rightarrow> 'v option \<times> storage" where
  "getFromCache parse now key st =
     (case getItem st (CACHE_PREFIX @ key) of
        None \<Rightarrow> (None, st)
      | Some cached \<Rightarrow>
          if cached = [] then (None, st)
          else (case parse cached of
                  None \<Rightarrow> (None, st)
                | Some (data, ts) \<Rightarrow>
                    if expired now ts then (None, removeItem (CACHE_PREFIX @ key) st)
                    else (data, st)))"

definition hasPrefix :: "string \<Rightarrow> bool" where
  \<comment> \<open>\<^verbatim>\<open>key?.startsWith(CACHE_PREFIX)\<close>\<close>
  "hasPrefix k = (take (length CACHE_PREFIX) k = CACHE_PREFIX)"

definition clearOldCache :: "parse_ts \<Rightarrow> int \<Rightarrow> storage \<Rightarrow> storage" where
  \<comment> \<open>\<open>parseTs v\<close> is the \<^verbatim>\<open>timestamp\<close> of \<^verbatim>\<open>JSON.parse(v)\<close>, \<open>None\<close> when that throws\<close>
  "clearOldCache parseTs now st =
     (let keysToRemove =
            map fst (filter (\<lambda>(k, v). hasPrefix k \<and>
               (case parseTs v of None \<Rightarrow> True | Some ts \<Rightarrow> expired now ts)) (items st))
      in foldl (\<lambda>s k. removeItem k s) st keysToRemove)"

definition clearCache :: "storage \<Rightarrow> storage" where
  "clearCache st =
     foldl (\<lambda>s k. removeItem k s) st (map fst (filter (\<lambda>(k, v). hasPrefix k) (items st)))"

definition saveToCache ::
  "'v stringify \<Rightarrow> parse_ts \<Rightarrow> int \<Rightarrow> string \<Rightarrow> 'v \<Rightarrow> storage \<Rightarrow> storage"
where
  "saveToCache stringify parseTs now key data st =
     (case stringify data now of
        None \<Rightarrow> st
      | Some serialized \<Rightarrow>
          if int (length serialized) > 500 * 1024 then st
          else (case setItem st (CACHE_PREFIX @ key) serialized of
                  Some st' \<Rightarrow> st'
                | None \<Rightarrow>
                    (let st1 = clearOldCache parseTs now st
                     in case setItem st1 (CACHE_PREFIX @ key) serialized of
                          Some st2 \<Rightarrow> st2
                        | None \<Rightarrow> clearCache st1)))"

text \<open>
  A concrete pair of host functions, for payloads given by their JSON text: the entry
  \<^verbatim>\<open>{"data":<text>,"timestamp":<digits>}\<close>, and the reader that takes the digits and
  the text back out of it.
\<close>

definition dq :: char where
  "dq = char_of (34 :: nat)"

definition entryHead :: string where
  "entryHead = ''{'' @ [dq] @ ''data'' @ [dq] @ '':''"

definition entryMid :: string where
  "entryMid = '','' @ [dq] @ ''timestamp'' @ [dq] @ '':''"

definition wrapEntry :: "string stringify" where
  "wrapEntry txt ts = Some (entryHead @ txt @ entryMid @ show_int ts @ ''}'')"

definition isDigit :: "char \<Rightarrow> bool" where
  "isDigit c = (c \<in> set ''0123456789'')"

definition digitVal :: "char \<Rightarrow> int" where
  "digitVal c = of_char c - 48"

definition intOfDigits :: "string \<Rightarrow> int" where
  "intOfDigits ds = foldl (\<lambda>n c. 10 * n + digitVal c) 0 ds"

definition unwrapEntry :: "string parse" where
  "unwrapEntry s =
     (case rev s of
        [] \<Rightarrow> None
      | c # r \<Rightarrow>
          if c \<noteq> CHR ''}'' then None
          else let ds = takeWhile isDigit r; rest = dropWhile isDigit r in
            if ds = [] \<or> take (length entryMid) rest \<noteq> rev entryMid then None
            else let body = rev (drop (length entryMid) rest) in
              if take (length entryHead) body \<noteq> entryHead then None
              else Some (Some (drop (length entryHead) body), Some (intOfDigits (rev ds))))"

definition unwrapTimestamp :: parse_ts where
  "unwrapTimestamp s = map_option snd (unwrapEntry s)"

definition emptyStorage :: storage where
  "emptyStorage = \<lparr> items = [], capacity = 5 * 1024 * 1024 \<rparr>"

definition bigText :: string where
  "bigText = [dq] @ replicate (500 * 1024) (CHR ''a'') @ [dq]"

definition fits :: "storage \<Rightarrow> string \<Rightarrow> string \<Rightarrow> bool" where
  "fits st k v = (used (AList.update k v (items st)) \<le> capacity st)"

text \<open>A small entry, written to the empty storage at the instant of the scenario.\<close>

definition smallEntry :: string where
  "smallEntry = entryHead @ ''[1,2]'' @ entryMid @ show_int scenarioNow @ ''}''"

definition savedSmall :: storage where
  "savedSmall = saveToCache wrapEntry unwrapTimestamp scenarioNow ''repos_acme'' ''[1,2]'' emptyStorage"

text \<open>
  The requests the collector sends, by endpoint and parameters (each stands for the
  URL the code builds).  The response of the server may depend on the token and on
  the requests made so far: the host supplies \<open>h_net\<close>, which also says how long the
  request takes (in ms).  A response is read through \<^verbatim>\<open>status\<close>, \<^verbatim>\<open>ok\<close>, the
  rate-limit headers and \<^verbatim>\<open>json()\<close>; its body has the JSON shape of its endpoint, or
  is \<open>BNull\<close> (JSON \<^verbatim>\<open>null\<close>), or is \<open>BUnreadable\<close> (\<^verbatim>\<open>json()\<close> rejects); reading a body
  of another shape than the endpoint's counts as a thrown \<^verbatim>\<open>TypeError\<close>.
\<close>

datatype request =
  GetStats string string
| GetRecentCommits string string nat int
| GetCommitDetail string string string
| GetCommits string string string nat "int option"
| GetPulls string string nat
| GetPullDetail string string int
| GetReviews string string int

record raw_commit =
  rc_sha :: string
  rc_login :: "string option"
  rc_avatar_url :: "string option"
  rc_message :: "string option"
  rc_author_date :: jsdate
  rc_committer_date :: jsdate
  rc_html_url :: string

record raw_pull =
  rp_number :: int
  rp_login :: "string option"
  rp_avatar_url :: "string option"
  rp_created_at :: jsdate
  rp_merged_at :: jsdate
  rp_closed_at :: jsdate
  rp_updated_at :: jsdate
  rp_state :: string
  rp_title :: string
  rp_html_url :: string

record pull_detail =
  pd_additions :: "int option"
  pd_deletions :: "int option"
  pd_commits :: "int option"
  pd_changed_files :: "int option"

record raw_review =
  rr_login :: "string option"
  rr_submitted_at :: jsdate

record raw_week =
  rw_w :: int
  rw_a :: "int option"
  rw_d :: "int option"
  rw_c :: "int option"

record raw_contributor =
  rk_login :: "string option"
  rk_avatar_url :: "string option"
  rk_total :: int
  rk_weeks :: "raw_week list option"

datatype body =
  BStats "raw_contributor list"
| BCommits "raw_commit list"
| BCommitDetail "(int option \<times> int option) option"
| BPulls "raw_pull list"
| BPullDetail pull_detail
| BReviews "raw_review list"
| BNull
| BUnreadable

record response =
  rs_status :: nat
  rs_remaining :: "string option"
  rs_reset :: "int option"
  rs_body :: body

datatype outcome = Rejected | Response response

definition ok :: "response \<Rightarrow> bool" where
  \<comment> \<open>\<^verbatim>\<open>response.ok\<close>\<close>
  "ok r = (200 \<le> rs_status r \<and> rs_status r \<le> 299)"

datatype js_error =
  FetchFailed
| BadBody
| RateLimitExceeded "int option"
| TypeError

text \<open>The statistics of one contributor, as \<^verbatim>\<open>fetchStats\<close> returns them.\<close>

record week_stat =
  ws_w :: "int option"
  ws_a :: int
  ws_d :: int
  ws_c :: int

record contributor_stat =
  cs_login :: "string option"
  cs_avatar_url :: "string option"
  cs_total :: int
  cs_weeks :: "week_stat list"

text \<open>The events the orchestrator hands to its three callbacks.\<close>

datatype log_event =
  LogStart string nat nat
| LogComplete string nat nat bool bool nat nat nat int int
| LogError string nat nat js_error

datatype event =
  Log log_event
| Progress int
| DataUpdate "contributor list" nat nat

record world =
  w_storage :: storage
  w_clock :: int
  w_requests :: "request list"
  w_sleeps :: "int list"
  w_events :: "event list"

text \<open>
  What the host supplies: the time zone, the server, the calendar step of
  \<^verbatim>\<open>setFullYear(getFullYear() - 1)\<close>, the floating-point expression
  \<^verbatim>\<open>Math.round(((i + 1) / total) * 100)\<close>, and \<^verbatim>\<open>JSON.stringify\<close> / \<^verbatim>\<open>JSON.parse\<close> at
  the payload types of the four caches.
\<close>

record host =
  h_tz :: int
  h_net :: "string \<Rightarrow> request list \<Rightarrow> request \<Rightarrow> outcome \<times> nat"
  h_yearBefore :: "int \<Rightarrow> int"
  h_roundPercent :: "nat \<Rightarrow> nat \<Rightarrow> int"
  h_parseTs :: parse_ts
  h_stringifyStats :: "contributor_stat list stringify"
  h_parseStats :: "contributor_stat list parse"
  h_stringifyCommits :: "commit list stringify"
  h_parseCommits :: "commit list parse"
  h_stringifyPRs :: "pull_request list stringify"
  h_parsePRs :: "pull_request list parse"
  h_stringifyReviews :: "(string \<times> review_info) list stringify"
  h_parseReviews :: "(string \<times> review_info) list parse"

definition fetch :: "host \<Rightarrow> string \<Rightarrow> request \<Rightarrow> world \<Rightarrow> outcome \<times> world" where
  "fetch h token req w =
     (fst (h_net h token (w_requests w) req),
      w \<lparr> w_requests := w_requests w @ [req],
          w_clock := w_clock w + int (snd (h_net h token (w_requests w) req)) \<rparr>)"

definition sleep :: "int \<Rightarrow> world \<Rightarrow> world" where
  \<comment> \<open>\<^verbatim>\<open>await new Promise((resolve) => setTimeout(resolve, ms))\<close>\<close>
  "sleep ms w = w \<lparr> w_sleeps := w_sleeps w @ [ms], w_clock := w_clock w + ms \<rparr>"

definition cacheGet :: "'v parse \<Rightarrow> string \<Rightarrow> world \<Rightarrow> 'v option \<times> world" where
  "cacheGet parse key w =
     (fst (getFromCache parse (w_clock w) key (w_storage w)),
      w \<lparr> w_storage := snd (getFromCache parse (w_clock w) key (w_storage w)) \<rparr>)"

definition cachePut :: "'v stringify \<Rightarrow> host \<Rightarrow> string \<Rightarrow> 'v \<Rightarrow> world \<Rightarrow> world" where
  "cachePut stringify h key v w =
     w \<lparr> w_storage := saveToCache stringify (h_parseTs h) (w_clock w) key v (w_storage w) \<rparr>"

definition sinceKey :: "int option \<Rightarrow> string" where
  \<comment> \<open>the suffix \<^verbatim>\<open>_since_${sinceDate.slice(0, 10)}\<close>: the UTC day of the instant, here by
      its day number instead of its calendar text\<close>
  "sinceKey since =
     (case since of None \<Rightarrow> [] | Some t \<Rightarrow> ''_since_'' @ show_int (t div msPerDay))"

definition truthy_login :: "string option \<Rightarrow> bool" where
  "truthy_login l = (case l of None \<Rightarrow> False | Some u \<Rightarrow> u \<noteq> [])"

section \<open>\<^verbatim>\<open>fetchPullRequests\<close>\<close>

definition effectiveDate :: "raw_pull \<Rightarrow> jsdate" where
  \<comment> \<open>\<^verbatim>\<open>pr.merged_at || pr.closed_at || pr.updated_at\<close>\<close>
  "effectiveDate p = date_or (date_or (rp_merged_at p) (rp_closed_at p)) (rp_updated_at p)"

definition keptSince :: "int \<Rightarrow> raw_pull \<Rightarrow> bool" where
  \<comment> \<open>\<^verbatim>\<open>prDate >= sinceTimestamp\<close>; false when the date is NaN\<close>
  "keptSince s p = (case getTime (effectiveDate p) of None \<Rightarrow> False | Some t \<Rightarrow> t \<ge> s)"

definition basicPR :: "raw_pull \<Rightarrow> pull_request" where
  "basicPR p =
     \<lparr> p_number = rp_number p, p_user = rp_login p, p_avatar_url = rp_avatar_url p,
       p_created_at = rp_created_at p, p_merged_at = rp_merged_at p, p_state = rp_state p,
       p_title = rp_title p, p_url = rp_html_url p, p_additions = None, p_deletions = None,
       p_commits = None, p_changed_files = None \<rparr>"

text \<open>
  The pagination loop.  Without a since-date it has no bound of its own
  (\<^verbatim>\<open>maxPages = Infinity\<close>), so the model takes fuel: \<open>None\<close> is a loop that has not
  returned when the fuel is used up.
\<close>

fun pullPages ::
  "nat \<Rightarrow> host \<Rightarrow> string \<Rightarrow> string \<Rightarrow> string \<Rightarrow> int option \<Rightarrow> nat \<Rightarrow> pull_request list \<Rightarrow> world
     \<Rightarrow> ((js_error + pull_request list) \<times> world) option"
where
  "pullPages 0 h token org repo since page prs w = None"
| "pullPages (Suc n) h token org repo since page prs w =
     (if since \<noteq> None \<and> page > 10 then Some (Inr prs, w)
      else case fetch h token (GetPulls org repo page) w of
        (Rejected, w1) \<Rightarrow> Some (Inl FetchFailed, w1)
      | (Response r, w1) \<Rightarrow>
          if \<not> ok r then Some (Inr prs, w1)
          else (case rs_body r of
            BPulls data \<Rightarrow>
              (let filteredPRs =
                     (case since of None \<Rightarrow> data | Some s \<Rightarrow> filter (keptSince s) data)
               in if since \<noteq> None \<and> data \<noteq> [] \<and> filteredPRs = [] then Some (Inr prs, w1)
                  else if length data < 100 then Some (Inr (prs @ map basicPR filteredPRs), w1)
                  else pullPages n h token org repo since (page + 1)
                         (prs @ map basicPR filteredPRs) w1)
          | _ \<Rightarrow> Some (Inl BadBody, w1)))"

definition withDetail :: "pull_detail \<Rightarrow> pull_request \<Rightarrow> pull_request" where
  "withDetail d p =
     p \<lparr> p_additions := Some (orZero (pd_additions d)),
         p_deletions := Some (orZero (pd_deletions d)),
         p_commits := Some (orZero (pd_commits d)),
         p_changed_files := Some (orZero (pd_changed_files d)) \<rparr>"

definition enrichOne :: "host \<Rightarrow> string \<Rightarrow> string \<Rightarrow> string \<Rightarrow> pull_request \<Rightarrow> world \<Rightarrow> pull_request \<times> world" where
  \<comment> \<open>one pass of the detail loop; everything thrown is caught and the pull request kept as it is\<close>
  "enrichOne h token org repo p w =
     (case fetch h token (GetPullDetail org repo (p_number p)) w of
        (Rejected, w1) \<Rightarrow> (p, w1)
      | (Response r, w1) \<Rightarrow>
          if ok r then (case rs_body r of BPullDetail d \<Rightarrow> (withDetail d p, w1) | _ \<Rightarrow> (p, w1))
          else (p, w1))"

fun enrichPRs ::
  "host \<Rightarrow> string \<Rightarrow> string \<Rightarrow> string \<Rightarrow> nat \<Rightarrow> pull_request list \<Rightarrow> world \<Rightarrow> pull_request list \<times> world"
where
  \<comment> \<open>\<open>k\<close> counts the merged pull requests met so far: only the first 30 are fetched\<close>
  "enrichPRs h token org repo k [] w = ([], w)"
| "enrichPRs h token org repo k (p # ps) w =
     (if truthy_date (p_merged_at p) \<and> k < 30
      then (case enrichOne h token org repo p w of
              (p', w1) \<Rightarrow> (case enrichPRs h token org repo (Suc k) ps w1 of
                             (ps', w2) \<Rightarrow> (p' # ps', w2)))
      else (case enrichPRs h token org repo
                   (if truthy_date (p_merged_at p) then Suc k else k) ps w of
              (ps', w2) \<Rightarrow> (p # ps', w2)))"

definition prsKey :: "string \<Rightarrow> string \<Rightarrow> int option \<Rightarrow> string" where
  "prsKey org repo since = ''prs_v3_'' @ org @ ''_'' @ repo @ sinceKey since"

definition fetchPullRequests ::
  "nat \<Rightarrow> host \<Rightarrow> string \<Rightarrow> string \<Rightarrow> string \<Rightarrow> int option \<Rightarrow> world
     \<Rightarrow> ((js_error + pull_request list) \<times> world) option"
where
  "fetchPullRequests fuel h token org repo since w =
     (case cacheGet (h_parsePRs h) (prsKey org repo since) w of
        (Some cached, w0) \<Rightarrow> Some (Inr cached, w0)
      | (None, w0) \<Rightarrow>
          (case pullPages fuel h token org repo since 1 [] w0 of
             None \<Rightarrow> None
           | Some (Inl e, w1) \<Rightarrow> Some (Inl e, w1)
           | Some (Inr prs, w1) \<Rightarrow>
               (case enrichPRs h token org repo 0 prs w1 of
                  (prs', w2) \<Rightarrow>
                    Some (Inr prs',
                          cachePut (h_stringifyPRs h) h (prsKey org repo since) prs' w2))))"

definition unenriched :: "pull_request \<Rightarrow> pull_request" where
  "unenriched p =
     p \<lparr> p_additions := None, p_deletions := None, p_commits := None, p_changed_files := None \<rparr>"

definition onOrAfter :: "int \<Rightarrow> jsdate \<Rightarrow> bool" where
  \<comment> \<open>\<^verbatim>\<open>new Date(d).getTime() >= sinceTimestamp\<close>; false when the time value is NaN\<close>
  "onOrAfter s d = (case getTime d of None \<Rightarrow> False | Some t \<Rightarrow> s \<le> t)"

definition servedPull ::
  "host \<Rightarrow> string \<Rightarrow> string \<Rightarrow> string \<Rightarrow> request list \<Rightarrow> request list \<Rightarrow> raw_pull \<Rightarrow> bool"
where
  \<comment> \<open>\<open>raw\<close> is an element of a page of pull requests that the server answered with to a
      request of the run that took the request history from \<open>before\<close> to \<open>after\<close>\<close>
  "servedPull h token org repo before after raw =
     (\<exists>pre page rest r dt dat.
        after = before @ pre @ GetPulls org repo page # rest \<and>
        h_net h token (before @ pre) (GetPulls org repo page) = (Response r, dt) \<and>
        ok r \<and> rs_body r = BPulls dat \<and> raw \<in> set dat)"

definition keptFrom ::
  "host \<Rightarrow> string \<Rightarrow> string \<Rightarrow> string \<Rightarrow> int \<Rightarrow> request list \<Rightarrow> request list \<Rightarrow> pull_request \<Rightarrow> bool"
where
  \<comment> \<open>\<open>p\<close> is the record (enriched or not) of a pull request served during the run that
      passed the date filter\<close>
  "keptFrom h token org repo s before after p =
     (\<exists>raw. servedPull h token org repo before after raw \<and> keptSince s raw \<and>
            unenriched p = basicPR raw)"

definition isPullDetail :: "string \<Rightarrow> string \<Rightarrow> request \<Rightarrow> bool" where
  "isPullDetail org repo req = (\<exists>n. req = GetPullDetail org repo n)"

text \<open>
  Two servers for the pull-request listing.  \<open>fullPagesHost\<close> answers every page with
  100 pull requests last touched in July 2023; \<open>twoPullsHost\<close> answers page 1 with one
  pull request merged on 13 November 2023 and one from July 2023, and serves the detail
  of the former.  Neither host can serialise, so nothing is cached.
\<close>

definition oldPull :: raw_pull where
  "oldPull =
     \<lparr> rp_number = 7, rp_login = Some ''bob'', rp_avatar_url = None,
       rp_created_at = DAt 1689000000000, rp_merged_at = DNull, rp_closed_at = DNull,
       rp_updated_at = DAt 1690000000000, rp_state = ''open'', rp_title = ''old'',
       rp_html_url = ''https://a/pr7'' \<rparr>"

definition newPull :: raw_pull where
  "newPull =
     \<lparr> rp_number = 9, rp_login = Some ''bob'', rp_avatar_url = None,
       rp_created_at = DAt 1699800000000, rp_merged_at = DAt 1699850000000,
       rp_closed_at = DAt 1699850000000, rp_updated_at = DAt 1699850000000,
       rp_state = ''closed'', rp_title = ''new'', rp_html_url = ''https://a/pr9'' \<rparr>"

definition okResponse :: "body \<Rightarrow> response" where
  "okResponse b = \<lparr> rs_status = 200, rs_remaining = None, rs_reset = None, rs_body = b \<rparr>"

definition stubHost :: "(string \<Rightarrow> request list \<Rightarrow> request \<Rightarrow> outcome \<times> nat) \<Rightarrow> host" where
  "stubHost server =
     \<lparr> h_tz = 0, h_net = server, h_yearBefore = (\<lambda>t. t - 365 * msPerDay),
       h_roundPercent = (\<lambda>i total. (200 * int i + int total) div (2 * int total)),
       h_parseTs = (\<lambda>s. None),
       h_stringifyStats = (\<lambda>v t. None), h_parseStats = (\<lambda>s. None),
       h_stringifyCommits = (\<lambda>v t. None), h_parseCommits = (\<lambda>s. None),
       h_stringifyPRs = (\<lambda>v t. None), h_parsePRs = (\<lambda>s. None),
       h_stringifyReviews = (\<lambda>v t. None), h_parseReviews = (\<lambda>s. None) \<rparr>"

definition fullPagesHost :: host where
  "fullPagesHost =
     stubHost (\<lambda>token hist req.
       case req of GetPulls org repo page \<Rightarrow> (Response (okResponse (BPulls (replicate 100 oldPull))), 120)
       | _ \<Rightarrow> (Rejected, 0))"

definition twoPullsHost :: host where
  "twoPullsHost =
     stubHost (\<lambda>token hist req.
       case req of GetPulls org repo page \<Rightarrow> (Response (okResponse (BPulls [newPull, oldPull])), 120)
       | GetPullDetail org repo n \<Rightarrow>
           (Response (okResponse (BPullDetail
              \<lparr> pd_additions = Some 10, pd_deletions = Some 2, pd_commits = Some 1,
                pd_changed_files = Some 1 \<rparr>)), 80)
       | _ \<Rightarrow> (Rejected, 0))"

definition startWorld :: world where
  "startWorld =
     \<lparr> w_storage = emptyStorage, w_clock = scenarioNow, w_requests = [], w_sleeps = [],
       w_events = [] \<rparr>"

definition weekAgo :: int where
  "weekAgo = scenarioNow - 7 * 86400000"

definition pullNine :: pull_request where
  "pullNine =
     withDetail \<lparr> pd_additions = Some 10, pd_deletions = Some 2, pd_commits = Some 1,
                  pd_changed_files = Some 1 \<rparr> (basicPR newPull)"

text \<open>
  A host that can cache: its server lists one open pull request, last updated ten
  minutes after \<open>weekAgo\<close>, and its JSON functions can write and read the one list that
  holds this pull request.
\<close>

definition edgePull :: raw_pull where
  "edgePull =
     \<lparr> rp_number = 11, rp_login = Some ''bob'', rp_avatar_url = None,
       rp_created_at = DAt 1699390000000, rp_merged_at = DNull, rp_closed_at = DNull,
       rp_updated_at = DAt 1699395800000, rp_state = ''open'', rp_title = ''edge'',
       rp_html_url = ''https://a/pr11'' \<rparr>"

definition edgeText :: string where
  "edgeText = ''[{number:11}]''"

definition cachingHost :: host where
  "cachingHost =
     (stubHost (\<lambda>token hist req.
        case req of GetPulls org repo page \<Rightarrow> (Response (okResponse (BPulls [edgePull])), 120)
        | _ \<Rightarrow> (Rejected, 0)))
     \<lparr> h_parseTs := unwrapTimestamp,
       h_stringifyPRs := (\<lambda>v t. if v = [basicPR edgePull] then wrapEntry edgeText t else None),
       h_parsePRs := (\<lambda>s. case unwrapEntry s of
                             Some (Some txt, ts) \<Rightarrow>
                               if txt = edgeText then Some (Some [basicPR edgePull], ts) else None
                           | _ \<Rightarrow> None) \<rparr>"

definition cachedWorld :: world where
  \<comment> \<open>the world after the first call\<close>
  "cachedWorld =
     startWorld
       \<lparr> w_storage :=
           emptyStorage
             \<lparr> items := [(CACHE_PREFIX @ prsKey ''acme'' ''A'' (Some weekAgo),
                          the (wrapEntry edgeText (scenarioNow + 120)))] \<rparr>,
         w_clock := scenarioNow + 120,
         w_requests := [GetPulls ''acme'' ''A'' 1] \<rparr>"

definition laterWorld :: world where
  \<comment> \<open>twenty minutes after the start of the first call\<close>
  "laterWorld = cachedWorld \<lparr> w_clock := scenarioNow + 1200000 \<rparr>"

section \<open>\<^verbatim>\<open>fetchCommitsAsStats\<close> and \<^verbatim>\<open>fetchStats\<close>\<close>

definition statsKey :: "string \<Rightarrow> string \<Rightarrow> string" where
  "statsKey org repo = ''stats_v2_'' @ org @ ''_'' @ repo"

definition commitsStatsKey :: "string \<Rightarrow> string \<Rightarrow> string" where
  "commitsStatsKey org repo = ''commits_stats_v2_'' @ org @ ''_'' @ repo"

fun recentPages ::
  "nat \<Rightarrow> host \<Rightarrow> string \<Rightarrow> string \<Rightarrow> string \<Rightarrow> int \<Rightarrow> nat \<Rightarrow> raw_commit list \<Rightarrow> world
     \<Rightarrow> raw_commit list \<times> world"
where
  \<comment> \<open>\<^verbatim>\<open>while (page <= maxPages)\<close> with \<open>n\<close> pages left; whatever is thrown ends the loop\<close>
  "recentPages 0 h token org repo since page cs w = (cs, w)"
| "recentPages (Suc n) h token org repo since page cs w =
     (case fetch h token (GetRecentCommits org repo page since) w of
        (Rejected, w1) \<Rightarrow> (cs, w1)
      | (Response r, w1) \<Rightarrow>
          if \<not> ok r then (cs, w1)
          else (case rs_body r of
                  BCommits data \<Rightarrow>
                    if data = [] then (cs, w1)
                    else if length data < 100 then (cs @ data, w1)
                    else recentPages n h token org repo since (page + 1) (cs @ data) w1
                | _ \<Rightarrow> (cs, w1)))"

fun commitDetails ::
  "host \<Rightarrow> string \<Rightarrow> string \<Rightarrow> string \<Rightarrow> raw_commit list \<Rightarrow> (string \<times> int \<times> int) list \<Rightarrow> world
     \<Rightarrow> (string \<times> int \<times> int) list \<times> world"
where
  \<comment> \<open>the loop that fills \<^verbatim>\<open>commitStats\<close>, keyed by sha\<close>
  "commitDetails h token org repo [] stats w = (stats, w)"
| "commitDetails h token org repo (c # cs) stats w =
     (case fetch h token (GetCommitDetail org repo (rc_sha c)) w of
        (Rejected, w1) \<Rightarrow> commitDetails h token org repo cs stats w1
      | (Response r, w1) \<Rightarrow>
          if ok r
          then (case rs_body r of
                  BCommitDetail (Some ad) \<Rightarrow>
                    commitDetails h token org repo cs
                      (AList.update (rc_sha c) (orZero (fst ad), orZero (snd ad)) stats) w1
                | _ \<Rightarrow> commitDetails h token org repo cs stats w1)
          else commitDetails h token org repo cs stats w1)"

record author_acc =
  aa_avatar_url :: "string option"
  aa_total :: int
  aa_weeks :: "(int option \<times> week_stat) list"

definition bumpAuthorWeek ::
  "int option \<Rightarrow> (int \<times> int) option \<Rightarrow> (int option \<times> week_stat) list
     \<Rightarrow> (int option \<times> week_stat) list"
where
  "bumpAuthorWeek k st wks =
     map (\<lambda>(k', e). if k' = k
            then (k', (case st of
                         None \<Rightarrow> e \<lparr> ws_c := ws_c e + 1 \<rparr>
                       | Some ad \<Rightarrow> e \<lparr> ws_c := ws_c e + 1, ws_a := ws_a e + fst ad,
                                       ws_d := ws_d e + snd ad \<rparr>))
            else (k', e))
       (if map_of wks k = None
        then wks @ [(k, \<lparr> ws_w = k, ws_a = 0, ws_d = 0, ws_c = 0 \<rparr>)] else wks)"

definition addAuthorCommit ::
  "int \<Rightarrow> (string \<times> int \<times> int) list \<Rightarrow> (string \<times> author_acc) list \<Rightarrow> raw_commit
     \<Rightarrow> js_error + (string \<times> author_acc) list"
where
  \<comment> \<open>the callback of \<^verbatim>\<open>commits.forEach\<close>.  For an inherited login \<^verbatim>\<open>!authorMap[login]\<close> is
      false, no entry is made, and \<^verbatim>\<open>authorMap[login].weeks[weekTs]\<close> reads a property of
      \<^verbatim>\<open>undefined\<close>\<close>
  "addAuthorCommit tz stats am c =
     (case rc_login c of
        None \<Rightarrow> Inr am
      | Some login \<Rightarrow>
          if login = [] then Inr am
          else if inherited login then Inl TypeError
          else Inr (
            map (\<lambda>(k, a). if k = login
                   then (k, a \<lparr> aa_total := aa_total a + 1,
                                 aa_weeks := bumpAuthorWeek
                                   (weekTsDate tz (date_or (rc_author_date c) (rc_committer_date c)))
                                   (map_of stats (rc_sha c)) (aa_weeks a) \<rparr>)
                   else (k, a))
              (if map_of am login = None
               then am @ [(login, \<lparr> aa_avatar_url = rc_avatar_url c, aa_total = 0, aa_weeks = [] \<rparr>)]
               else am)))"

definition statWeekAsc :: "week_stat \<Rightarrow> week_stat \<Rightarrow> int option" where
  "statWeekAsc a b =
     (case ws_w a of None \<Rightarrow> None
      | Some wa \<Rightarrow> (case ws_w b of None \<Rightarrow> None | Some wb \<Rightarrow> Some (wa - wb)))"

definition activeWeek :: "week_stat \<Rightarrow> bool" where
  "activeWeek e = (ws_a e > 0 \<or> ws_d e > 0 \<or> ws_c e > 0)"

definition authorStat :: "string \<times> author_acc \<Rightarrow> contributor_stat" where
  "authorStat e =
     \<lparr> cs_login = Some (fst e), cs_avatar_url = aa_avatar_url (snd e), cs_total = aa_total (snd e),
       cs_weeks = jsSort statWeekAsc (filter activeWeek (map snd (aa_weeks (snd e)))) \<rparr>"

definition fetchCommitsAsStats ::
  "host \<Rightarrow> string \<Rightarrow> string \<Rightarrow> string \<Rightarrow> world
     \<Rightarrow> (js_error + contributor_stat list) \<times> world"
where
  \<comment> \<open>the two fetch loops catch whatever is thrown in them; the loop over the commits
      that fills \<^verbatim>\<open>authorMap\<close> is not inside a \<^verbatim>\<open>try\<close>\<close>
  "fetchCommitsAsStats h token org repo w =
     (case cacheGet (h_parseStats h) (commitsStatsKey org repo) w of
        (Some cached, w0) \<Rightarrow> (Inr cached, w0)
      | (None, w0) \<Rightarrow>
          (case recentPages 3 h token org repo (h_yearBefore h (w_clock w0)) 1 [] w0 of
             (cs, w1) \<Rightarrow>
               (case commitDetails h token org repo (take 50 cs) [] w1 of
                  (stats, w2) \<Rightarrow>
                    (case foldE (addAuthorCommit (h_tz h) stats) [] cs of
                       Inl e \<Rightarrow> (Inl e, w2)
                     | Inr am \<Rightarrow>
                         (Inr (map authorStat am),
                          cachePut (h_stringifyStats h) h (commitsStatsKey org repo)
                            (map authorStat am) w2)))))"

definition minimalWeek :: "raw_week \<Rightarrow> week_stat" where
  "minimalWeek e =
     \<lparr> ws_w = Some (rw_w e), ws_a = orZero (rw_a e), ws_d = orZero (rw_d e),
       ws_c = orZero (rw_c e) \<rparr>"

definition minimalStats :: "raw_contributor list \<Rightarrow> contributor_stat list" where
  "minimalStats data =
     filter (\<lambda>c. truthy_login (cs_login c))
       (map (\<lambda>c. \<lparr> cs_login = rk_login c, cs_avatar_url = rk_avatar_url c, cs_total = rk_total c,
                   cs_weeks =
                     (let ws = (case rk_weeks c of None \<Rightarrow> [] | Some ws \<Rightarrow> ws)
                      in filter activeWeek (map minimalWeek (drop (length ws - 52) ws))) \<rparr>)
          data)"

text \<open>
  One pass through the body of \<^verbatim>\<open>fetchStats\<close>: it returns or throws (\<open>StatsDone\<close>),
  has seen status 202 (\<open>StatsComputing\<close>), or goes to the commits API
  (\<open>StatsFallback\<close>).
\<close>

datatype stats_step =
  StatsDone "(js_error + contributor_stat list) \<times> world"
| StatsComputing world
| StatsFallback world

definition statsAttempt :: "host \<Rightarrow> string \<Rightarrow> string \<Rightarrow> string \<Rightarrow> world \<Rightarrow> stats_step" where
  "statsAttempt h token org repo w =
     (case cacheGet (h_parseStats h) (statsKey org repo) w of
        (Some cached, w0) \<Rightarrow> StatsDone (Inr cached, w0)
      | (None, w0) \<Rightarrow>
          (case fetch h token (GetStats org repo) w0 of
             (Rejected, w1) \<Rightarrow> StatsDone (Inl FetchFailed, w1)
           | (Response r, w1) \<Rightarrow>
               if rs_status r = 202 then StatsComputing w1
               else if rs_status r = 204 then StatsDone (Inr [], w1)
               else if \<not> ok r
                 then (if rs_status r = 403 \<and> rs_remaining r = Some ''0''
                       then StatsDone (Inl (RateLimitExceeded (rs_reset r)), w1)
                       else StatsFallback w1)
               else (case rs_body r of
                       BStats data \<Rightarrow>
                         if data = [] then StatsFallback w1
                         else StatsDone (Inr (minimalStats data),
                                cachePut (h_stringifyStats h) h (statsKey org repo)
                                  (minimalStats data) w1)
                     | BNull \<Rightarrow> StatsFallback w1
                     | _ \<Rightarrow> StatsDone (Inl BadBody, w1))))"

definition fallbackStats ::
  "host \<Rightarrow> string \<Rightarrow> string \<Rightarrow> string \<Rightarrow> world \<Rightarrow> (js_error + contributor_stat list) \<times> world"
where
  \<comment> \<open>\<^verbatim>\<open>return fetchCommitsAsStats(token, org, repoName)\<close>\<close>
  "fallbackStats h token org repo w = fetchCommitsAsStats h token org repo w"

fun fetchStats ::
  "host \<Rightarrow> string \<Rightarrow> string \<Rightarrow> string \<Rightarrow> nat \<Rightarrow> world \<Rightarrow> (js_error + contributor_stat list) \<times> world"
where
  "fetchStats h token org repo 0 w =
     (case statsAttempt h token org repo w of
        StatsDone res \<Rightarrow> res
      | StatsComputing w1 \<Rightarrow> fallbackStats h token org repo w1
      | StatsFallback w1 \<Rightarrow> fallbackStats h token org repo w1)"
| "fetchStats h token org repo (Suc retries) w =
     (case statsAttempt h token org repo w of
        StatsDone res \<Rightarrow> res
      | StatsComputing w1 \<Rightarrow> fetchStats h token org repo retries (sleep 1500 w1)
      | StatsFallback w1 \<Rightarrow> fallbackStats h token org repo w1)"

text \<open>
  A server whose statistics endpoint answers 202 every time, and whose commits API
  lists two commits by alice with the line counts 5 / 3 each.
\<close>

definition rawAlice :: "string \<Rightarrow> int \<Rightarrow> raw_commit" where
  "rawAlice sha t =
     \<lparr> rc_sha = sha, rc_login = Some ''alice'', rc_avatar_url = Some ''https://a/alice.png'',
       rc_message = Some ''work'', rc_author_date = DAt t, rc_committer_date = DAt t,
       rc_html_url = ''https://a/c'' \<rparr>"

definition computingHost :: host where
  "computingHost =
     stubHost (\<lambda>token hist req.
       case req of
         GetStats org repo \<Rightarrow>
           (Response \<lparr> rs_status = 202, rs_remaining = None, rs_reset = None, rs_body = BNull \<rparr>, 50)
       | GetRecentCommits org repo page since \<Rightarrow>
           (Response (okResponse (BCommits
              [rawAlice ''0123456789abcdef'' 1699900000000,
               rawAlice ''1111111111111111'' 1699500000000])), 100)
       | GetCommitDetail org repo sha \<Rightarrow>
           (Response (okResponse (BCommitDetail (Some (Some 5, Some 3)))), 70)
       | _ \<Rightarrow> (Rejected, 0))"

definition constructorHost :: host where
  \<comment> \<open>the same server, the one commit listed being by the login \<open>constructor\<close>\<close>
  "constructorHost =
     stubHost (\<lambda>token hist req.
       case req of
         GetStats org repo \<Rightarrow>
           (Response \<lparr> rs_status = 202, rs_remaining = None, rs_reset = None, rs_body = BNull \<rparr>, 50)
       | GetRecentCommits org repo page since \<Rightarrow>
           (Response (okResponse (BCommits
              [(rawAlice ''0123456789abcdef'' 1699900000000) \<lparr> rc_login := Some ''constructor'' \<rparr>])),
            100)
       | GetCommitDetail org repo sha \<Rightarrow>
           (Response (okResponse (BCommitDetail (Some (Some 5, Some 3)))), 70)
       | _ \<Rightarrow> (Rejected, 0))"

definition aliceStat :: contributor_stat where
  "aliceStat =
     \<lparr> cs_login = Some ''alice'', cs_avatar_url = Some ''https://a/alice.png'', cs_total = 2,
       cs_weeks =
         [\<lparr> ws_w = Some 1699142400, ws_a = 5, ws_d = 3, ws_c = 1 \<rparr>,
          \<lparr> ws_w = Some 1699747200, ws_a = 5, ws_d = 3, ws_c = 1 \<rparr>] \<rparr>"

section \<open>\<^verbatim>\<open>fetchCommits\<close> and \<^verbatim>\<open>fetchReviews\<close>\<close>












section \<open>\<^verbatim>\<open>fetchAllStats\<close>\<close>

record repo =
  repo_name :: string
  default_branch :: "string option"
























section \<open>Properties of the accumulator\<close>

lemma um_inv_ensureUser: "um_inv um \<Longrightarrow> um_inv (ensureUser u av um)"
  by (auto simp: um_inv_def ensureUser_def newUser_def map_of_eq_None_iff)

lemma map_fst_modifyUser: "map fst (modifyUser u f um) = map fst um"
  by (induction um) (auto simp: modifyUser_def)

lemma set_modifyUser:
  "(k, s) \<in> set (modifyUser u f um) \<Longrightarrow> \<exists>s0. (k, s0) \<in> set um \<and> (s = s0 \<or> s = f s0)"
  by (induction um) (auto simp: modifyUser_def split: if_splits)

lemma um_inv_modifyUser:
  assumes "um_inv um" and "\<And>s. s_user (f s) = s_user s"
  shows "um_inv (modifyUser u f um)"
proof -
  have "s_user s = k" if "(k, s) \<in> set (modifyUser u f um)" for k s
  proof -
    from set_modifyUser[OF that] obtain s0 where "(k, s0) \<in> set um" and "s = s0 \<or> s = f s0"
      by blast
    with assms show ?thesis by (auto simp: um_inv_def)
  qed
  with assms(1) show ?thesis
    by (auto simp: um_inv_def map_fst_modifyUser)
qed

lemma s_user_addCommit: "s_user (addCommit tz rn c s) = s_user s"
  by (simp add: addCommit_def)

lemma s_user_addPR: "s_user (addPR tz rn p s) = s_user s"
  by (simp add: addPR_def)

lemma s_user_addReviewDate: "s_user (addReviewDate now tz df s d) = s_user s"
  by (simp add: addReviewDate_def)

lemma s_user_foldl_addReviewDate: "s_user (foldl (addReviewDate now tz df) s ds) = s_user s"
  by (induction ds arbitrary: s) (simp_all add: s_user_addReviewDate)

lemma s_user_addReviews: "s_user (addReviews now tz df rn info s) = s_user s"
  by (simp add: addReviews_def Let_def s_user_foldl_addReviewDate)

lemma um_inv_processCommit: "um_inv um \<Longrightarrow> um_inv (processCommit now tz df rn um c)"
  by (simp add: processCommit_def um_inv_modifyUser um_inv_ensureUser s_user_addCommit
      split: option.splits)

lemma um_inv_processPR: "um_inv um \<Longrightarrow> um_inv (processPR now tz df rn um p)"
  by (simp add: processPR_def um_inv_modifyUser um_inv_ensureUser s_user_addPR
      split: option.splits)

lemma um_inv_processReview: "um_inv um \<Longrightarrow> um_inv (processReview now tz df rn um e)"
  by (simp add: processReview_def um_inv_modifyUser um_inv_ensureUser s_user_addReviews)

lemma um_inv_foldl:
  "(\<And>um x. um_inv um \<Longrightarrow> um_inv (f um x)) \<Longrightarrow> um_inv um \<Longrightarrow> um_inv (foldl f um xs)"
  by (induction xs arbitrary: um) simp_all

lemma um_inv_processRepo: "um_inv um \<Longrightarrow> um_inv (processRepo now tz df um rd)"
  unfolding processRepo_def
  by (intro um_inv_foldl um_inv_processCommit um_inv_processPR um_inv_processReview)

lemma um_inv_buildUserMap: "um_inv (buildUserMap now tz df rds)"
  unfolding buildUserMap_def
  by (rule um_inv_foldl[OF um_inv_processRepo]) (simp_all add: um_inv_def)

section \<open>Net lines\<close>

text \<open>
  C1.  Every record that \<^verbatim>\<open>aggregateStats\<close> returns has
  \<open>net = additions - deletions\<close>, for every input and every \<^verbatim>\<open>daysFilter\<close>; the two
  totals are the final ones of the accumulator entry of that login, which stores no
  net value of its own (\<open>user_stats\<close> has no such field).
\<close>

theorem aggregateStats_net:
  "r \<in> set (aggregateStats now tz rds df) \<Longrightarrow>
     net r = additions r - deletions r \<and>
     (\<exists>s. (user r, s) \<in> set (buildUserMap now tz df rds) \<and>
          additions r = s_additions s \<and> deletions r = s_deletions s)"
proof -
  assume "r \<in> set (aggregateStats now tz rds df)"
  then obtain k s where ks: "(k, s) \<in> set (buildUserMap now tz df rds)"
    and r: "r = emit now tz df s"
    by (auto simp: aggregateStats_def)
  have "s_user s = k"
    using um_inv_buildUserMap[of now tz df rds] ks by (auto simp: um_inv_def)
  with ks r show ?thesis by (auto simp: emit_def)
qed

lemma scenarioOut_length: "length scenarioOut = 3"
  unfolding scenarioOut_def by code_simp

theorem aggregateStats_net_witness:
  "net (scenarioOut ! 1) = additions (scenarioOut ! 1) - deletions (scenarioOut ! 1) \<and>
   user (scenarioOut ! 1) = ''bob'' \<and> additions (scenarioOut ! 1) = 10 \<and>
   deletions (scenarioOut ! 1) = 2 \<and> net (scenarioOut ! 1) = 8"
proof -
  have mem: "scenarioOut ! 1 \<in> set (aggregateStats scenarioNow 0 scenarioRepos (Some 7))"
    using scenarioOut_length unfolding scenarioOut_def by (intro nth_mem) simp
  have n: "net (scenarioOut ! 1) = additions (scenarioOut ! 1) - deletions (scenarioOut ! 1)"
    using aggregateStats_net[OF mem] by blast
  have u: "user (scenarioOut ! 1) = ''bob''"
    unfolding scenarioOut_def by code_simp
  have a: "additions (scenarioOut ! 1) = 10"
    unfolding scenarioOut_def by code_simp
  have d: "deletions (scenarioOut ! 1) = 2"
    unfolding scenarioOut_def by code_simp
  from n u a d show ?thesis by simp
qed

section \<open>Contributors without activity\<close>

text \<open>
  C4.  Every record that \<^verbatim>\<open>aggregateStats\<close> returns has at least one of additions,
  deletions, commits, pullRequests, reviews strictly positive; and a login whose
  accumulator entry has all five totals zero after filtering is the \<open>user\<close> of no
  output record.
\<close>

theorem aggregateStats_active:
  "(r \<in> set (aggregateStats now tz rds df) \<longrightarrow>
      additions r > 0 \<or> deletions r > 0 \<or> commits r > 0 \<or> pullRequests r > 0 \<or> reviews r > 0) \<and>
   ((u, s) \<in> set (buildUserMap now tz df rds) \<and> s_additions s = 0 \<and> s_deletions s = 0 \<and>
      s_commits s = 0 \<and> s_pullRequests s = 0 \<and> s_reviews s = 0 \<longrightarrow>
      u \<notin> user ` set (aggregateStats now tz rds df))"
proof (intro conjI impI)
  assume "r \<in> set (aggregateStats now tz rds df)"
  then show "additions r > 0 \<or> deletions r > 0 \<or> commits r > 0 \<or> pullRequests r > 0 \<or> reviews r > 0"
    by (auto simp: aggregateStats_def emit_def hasActivity_def)
next
  assume a: "(u, s) \<in> set (buildUserMap now tz df rds) \<and> s_additions s = 0 \<and> s_deletions s = 0 \<and>
      s_commits s = 0 \<and> s_pullRequests s = 0 \<and> s_reviews s = 0"
  have inv: "um_inv (buildUserMap now tz df rds)" by (rule um_inv_buildUserMap)
  show "u \<notin> user ` set (aggregateStats now tz rds df)"
  proof
    assume "u \<in> user ` set (aggregateStats now tz rds df)"
    then obtain k s' where ks: "(k, s') \<in> set (buildUserMap now tz df rds)"
      and act: "hasActivity s'" and u: "u = s_user s'"
      by (auto simp: aggregateStats_def emit_def)
    from inv ks have "s_user s' = k" by (auto simp: um_inv_def)
    with u ks have "(u, s') \<in> set (buildUserMap now tz df rds)" by simp
    with a inv have "s' = s" unfolding um_inv_def by (auto dest: eq_key_imp_eq_value)
    with act a show False by (simp add: hasActivity_def)
  qed
qed

theorem aggregateStats_active_witness:
  "commits (scenarioOut ! 0) = 2 \<and>
   (0 < additions (scenarioOut ! 0) \<or> 0 < deletions (scenarioOut ! 0) \<or>
    0 < commits (scenarioOut ! 0) \<or> 0 < pullRequests (scenarioOut ! 0) \<or>
    0 < reviews (scenarioOut ! 0)) \<and>
   ''dave'' \<in> fst ` set (buildUserMap scenarioNow 0 (Some 7) scenarioRepos) \<and>
   ''dave'' \<notin> user ` set (aggregateStats scenarioNow 0 scenarioRepos (Some 7))"
proof -
  let ?um = "buildUserMap scenarioNow 0 (Some 7) scenarioRepos"
  let ?out = "aggregateStats scenarioNow 0 scenarioRepos (Some 7)"
  have mem: "scenarioOut ! 0 \<in> set ?out"
    using scenarioOut_length unfolding scenarioOut_def by (intro nth_mem) simp
  have c: "commits (scenarioOut ! 0) = 2"
    unfolding scenarioOut_def by code_simp
  have len: "length ?um = 4" by code_simp
  have k: "fst (?um ! 3) = ''dave''" by code_simp
  have z: "s_additions (snd (?um ! 3)) = 0 \<and> s_deletions (snd (?um ! 3)) = 0 \<and>
      s_commits (snd (?um ! 3)) = 0 \<and> s_pullRequests (snd (?um ! 3)) = 0 \<and>
      s_reviews (snd (?um ! 3)) = 0"
    by code_simp
  have "?um ! 3 \<in> set ?um" using len by (intro nth_mem) simp
  then have d: "(''dave'', snd (?um ! 3)) \<in> set ?um"
    using k by (metis prod.collapse)
  from d have d': "''dave'' \<in> fst ` set ?um" by force
  from aggregateStats_active[of "scenarioOut ! 0" scenarioNow 0 scenarioRepos "Some 7"
      "''dave''" "snd (?um ! 3)"] mem d z c d'
  show ?thesis by blast
qed

section \<open>The time window of the commit pass\<close>

lemma map_of_modifyUser:
  "map_of (modifyUser u f um) k = (if k = u then map_option f (map_of um u) else map_of um k)"
  by (induction um) (auto simp: modifyUser_def)

lemma map_of_ensureUser:
  "map_of (ensureUser u av um) k =
     (if k = u \<and> map_of um u = None then Some (newUser u av) else map_of um k)"
  by (auto simp: ensureUser_def map_add_def split: option.splits)

lemma commitsOfUser_modify_ensure:
  "commitsOfUser (modifyUser u f (ensureUser u av um)) k =
     (if k = u then s_commits (f (case map_of um u of None \<Rightarrow> newUser u av | Some s \<Rightarrow> s))
      else commitsOfUser um k)"
  by (simp add: commitsOfUser_def map_of_modifyUser map_of_ensureUser split: option.splits)

lemma s_commits_addCommit: "s_commits (addCommit tz rn c s) = s_commits s + 1"
  by (simp add: addCommit_def)

lemma s_commits_addPR: "s_commits (addPR tz rn p s) = s_commits s"
  by (simp add: addPR_def)

lemma s_commits_foldl_addReviewDate:
  "s_commits (foldl (addReviewDate now tz df) s ds) = s_commits s"
  by (induction ds arbitrary: s) (simp_all add: addReviewDate_def)

lemma s_commits_addReviews: "s_commits (addReviews now tz df rn info s) = s_commits s"
  by (simp add: addReviews_def Let_def s_commits_foldl_addReviewDate)

lemma s_commits_default:
  "s_commits (case map_of um u of None \<Rightarrow> newUser u av | Some s \<Rightarrow> s) = commitsOfUser um u"
  by (simp add: commitsOfUser_def newUser_def split: option.splits)

lemma commitsOfUser_processCommit:
  "commitsOfUser (processCommit now tz df rn um c) u =
     commitsOfUser um u + (if commitCounted now df u c then 1 else 0)"
proof (cases "c_user c")
  case None
  then show ?thesis by (simp add: processCommit_def commitCounted_def)
next
  case (Some v)
  then show ?thesis
    by (simp add: processCommit_def commitCounted_def commitsOfUser_modify_ensure
        s_commits_addCommit s_commits_default)
qed

lemma commitsOfUser_processPR:
  "commitsOfUser (processPR now tz df rn um p) u = commitsOfUser um u"
proof (cases "p_user p")
  case None
  then show ?thesis by (simp add: processPR_def)
next
  case (Some v)
  then show ?thesis
    by (simp add: processPR_def commitsOfUser_modify_ensure s_commits_addPR s_commits_default)
qed

lemma commitsOfUser_processReview:
  "commitsOfUser (processReview now tz df rn um e) u = commitsOfUser um u"
  by (simp add: processReview_def commitsOfUser_modify_ensure s_commits_addReviews
      s_commits_default)

lemma commitsOfUser_foldl_same:
  "(\<And>um x. commitsOfUser (f um x) u = commitsOfUser um u) \<Longrightarrow>
     commitsOfUser (foldl f um xs) u = commitsOfUser um u"
  by (induction xs arbitrary: um) simp_all

lemma commitsOfUser_foldl_processCommit:
  "commitsOfUser (foldl (processCommit now tz df rn) um cs) u =
     commitsOfUser um u + int (length (filter (commitCounted now df u) cs))"
  by (induction cs arbitrary: um) (simp_all add: commitsOfUser_processCommit)

lemma commitsOfUser_processRepo:
  "commitsOfUser (processRepo now tz df um rd) u =
     commitsOfUser um u + int (length (filter (commitCounted now df u) (commits_of rd)))"
  by (simp add: processRepo_def commitsOfUser_foldl_same commitsOfUser_processReview
      commitsOfUser_processPR commitsOfUser_foldl_processCommit)

lemma commitsOfUser_foldl_processRepo:
  "commitsOfUser (foldl (processRepo now tz df) um rds) u =
     commitsOfUser um u +
     int (length (filter (commitCounted now df u) (concat (map commits_of rds))))"
  by (induction rds arbitrary: um) (simp_all add: commitsOfUser_processRepo)

lemma commitsOfUser_buildUserMap:
  "commitsOfUser (buildUserMap now tz df rds) u =
     int (length (filter (commitCounted now df u) (concat (map commits_of rds))))"
proof -
  have "commitsOfUser [] u = 0" by (simp add: commitsOfUser_def)
  then show ?thesis by (simp add: buildUserMap_def commitsOfUser_foldl_processRepo)
qed

lemma aggregateStats_commits:
  assumes "r \<in> set (aggregateStats now tz rds df)"
  shows "commits r =
     int (length (filter (commitCounted now df (user r)) (concat (map commits_of rds))))"
proof -
  from assms obtain k s where ks: "(k, s) \<in> set (buildUserMap now tz df rds)"
    and r: "r = emit now tz df s"
    by (auto simp: aggregateStats_def)
  have inv: "um_inv (buildUserMap now tz df rds)" by (rule um_inv_buildUserMap)
  with ks have "s_user s = k" by (auto simp: um_inv_def)
  moreover from inv ks have "map_of (buildUserMap now tz df rds) k = Some s"
    by (simp add: um_inv_def)
  ultimately have "commitsOfUser (buildUserMap now tz df rds) (user r) = commits r"
    using r by (simp add: commitsOfUser_def emit_def)
  then show ?thesis by (simp add: commitsOfUser_buildUserMap)
qed

lemma div_step: "((x::int) - 1) div 1000 < x div 1000 \<longleftrightarrow> x mod 1000 = 0"
proof -
  have a: "x = 1000 * (x div 1000) + x mod 1000" by simp
  have b: "x - 1 = 1000 * ((x - 1) div 1000) + (x - 1) mod 1000" by simp
  have c: "0 \<le> x mod 1000" "x mod 1000 < 1000" "0 \<le> (x - 1) mod 1000"
    "(x - 1) mod 1000 < 1000"
    by simp_all
  show ?thesis using a b c by linarith
qed

lemma div_far: "(t::int) + 1000 \<le> x \<Longrightarrow> t div 1000 < x div 1000"
proof -
  assume "t + 1000 \<le> x"
  then have "(t + 1000) div 1000 \<le> x div 1000" by (rule zdiv_mono1) simp
  then show ?thesis by simp
qed

lemma beforeCutoff_DAt:
  "d \<noteq> 0 \<Longrightarrow>
     beforeCutoff now (Some d) (DAt t) \<longleftrightarrow> t div 1000 < (now - d * msPerDay) div 1000"
  by (simp add: beforeCutoff_def truthy_days_def cutoffTimestamp_def)

text \<open>
  C3, as the claim states it, fails: with the cutoff half a second past a whole second,
  the commit dated one millisecond before the cutoff is counted.  Both sides of the
  comparison are truncated to whole seconds.
\<close>

theorem commit_one_ms_before_cutoff_counterexample:
  "c_date lateCommit = DAt (1700000000500 - 7 * msPerDay - 1) \<and>
   map (\<lambda>r. (user r, commits r)) (aggregateStats 1700000000500 0 lateRepos (Some 7))
     = [(''alice'', 1)]"
  by code_simp

text \<open>
  C3, amended.  With a window of \<open>d\<close> days set, the commit total of every output record
  is the number of commits of that login whose date is not before the cutoff, where a
  commit dated \<open>t\<close> is before the cutoff exactly when its Unix second \<open>t div 1000\<close> is
  smaller than the Unix second of \<open>now - d\<close> days.  So a commit dated exactly at the
  cutoff instant is counted, a commit dated a second or more before it is not, and a
  commit dated one millisecond before it is left out exactly when the cutoff instant is
  a whole second.
\<close>

theorem aggregateStats_commit_cutoff:
  assumes "d \<noteq> 0"
  shows "(r \<in> set (aggregateStats now tz rds (Some d)) \<longrightarrow>
            commits r = int (length (filter (commitCounted now (Some d) (user r))
                                      (concat (map commits_of rds))))) \<and>
         (commitCounted now (Some d) u c \<longleftrightarrow>
            c_user c = Some u \<and> u \<noteq> [] \<and> \<not> beforeCutoff now (Some d) (c_date c)) \<and>
         (beforeCutoff now (Some d) (DAt t) \<longleftrightarrow> t div 1000 < (now - d * msPerDay) div 1000) \<and>
         \<not> beforeCutoff now (Some d) (DAt (now - d * msPerDay)) \<and>
         (t + 1000 \<le> now - d * msPerDay \<longrightarrow> beforeCutoff now (Some d) (DAt t)) \<and>
         (beforeCutoff now (Some d) (DAt (now - d * msPerDay - 1)) \<longleftrightarrow>
            (now - d * msPerDay) mod 1000 = 0)"
proof (intro conjI impI)
  assume "r \<in> set (aggregateStats now tz rds (Some d))"
  then show "commits r = int (length (filter (commitCounted now (Some d) (user r))
                                      (concat (map commits_of rds))))"
    by (rule aggregateStats_commits)
next
  show "commitCounted now (Some d) u c \<longleftrightarrow>
            c_user c = Some u \<and> u \<noteq> [] \<and> \<not> beforeCutoff now (Some d) (c_date c)"
    by (simp add: commitCounted_def)
next
  show "beforeCutoff now (Some d) (DAt t) \<longleftrightarrow> t div 1000 < (now - d * msPerDay) div 1000"
    using assms by (rule beforeCutoff_DAt)
next
  show "\<not> beforeCutoff now (Some d) (DAt (now - d * msPerDay))"
    using assms by (simp add: beforeCutoff_DAt)
next
  assume "t + 1000 \<le> now - d * msPerDay"
  then show "beforeCutoff now (Some d) (DAt t)"
    using assms by (simp add: beforeCutoff_DAt div_far)
next
  show "beforeCutoff now (Some d) (DAt (now - d * msPerDay - 1)) \<longleftrightarrow>
            (now - d * msPerDay) mod 1000 = 0"
    unfolding beforeCutoff_DAt[OF assms] by (rule div_step)
qed

theorem aggregateStats_commit_cutoff_witness:
  "user (scenarioOut ! 0) = ''alice'' \<and>
   commits (scenarioOut ! 0) =
     int (length (filter (commitCounted scenarioNow (Some 7) ''alice'')
                    (concat (map commits_of scenarioRepos)))) \<and>
   commits (scenarioOut ! 0) = 2 \<and>
   \<not> beforeCutoff scenarioNow (Some 7) (DAt (scenarioNow - 7 * msPerDay)) \<and>
   beforeCutoff scenarioNow (Some 7) (DAt 1690000000000) \<and>
   beforeCutoff scenarioNow (Some 7) (DAt (scenarioNow - 7 * msPerDay - 1))"
proof -
  have d: "(7::int) \<noteq> 0" by simp
  have mem: "scenarioOut ! 0 \<in> set (aggregateStats scenarioNow 0 scenarioRepos (Some 7))"
    using scenarioOut_length unfolding scenarioOut_def by (intro nth_mem) simp
  have u: "user (scenarioOut ! 0) = ''alice''"
    unfolding scenarioOut_def by code_simp
  have c: "commits (scenarioOut ! 0) = 2"
    unfolding scenarioOut_def by code_simp
  have far: "(1690000000000::int) + 1000 \<le> scenarioNow - 7 * msPerDay"
    by (simp add: scenarioNow_def msPerDay_def)
  have whole: "(scenarioNow - 7 * msPerDay) mod 1000 = 0"
    by (simp add: scenarioNow_def msPerDay_def)
  from aggregateStats_commit_cutoff[OF d, of "scenarioOut ! 0" scenarioNow 0 scenarioRepos
      "''alice''" "aliceCommit [] 0" 1690000000000] mem u c far whole
  show ?thesis by simp
qed

section \<open>The weekly series\<close>












lemma set_jsInsert: "set (jsInsert cmp x ys) = insert x (set ys)"
  by (induction ys) auto

lemma set_jsSort: "set (jsSort cmp xs) = set xs"
  unfolding jsSort_def by (induction xs) (simp_all add: set_jsInsert)

lemma length_jsInsert: "length (jsInsert cmp x ys) = Suc (length ys)"
  by (induction ys) auto

lemma length_jsSort: "length (jsSort cmp xs) = length xs"
  unfolding jsSort_def by (induction xs) (simp_all add: length_jsInsert)














section \<open>The recent-items lists\<close>

lemma lists_bounded_addCommit: "lists_bounded s \<Longrightarrow> lists_bounded (addCommit tz rn c s)"
  by (simp add: lists_bounded_def addCommit_def)

lemma lists_bounded_addPR: "lists_bounded s \<Longrightarrow> lists_bounded (addPR tz rn p s)"
  by (simp add: lists_bounded_def addPR_def)

lemma length_foldl_addReviewedPR:
  "length rl \<le> 20 \<Longrightarrow> length (foldl (addReviewedPR rn) rl ps) \<le> 20"
  by (induction ps arbitrary: rl) (simp_all add: addReviewedPR_def)

lemma lists_foldl_addReviewDate:
  "s_commitsList (foldl (addReviewDate now tz df) s ds) = s_commitsList s \<and>
   s_prsList (foldl (addReviewDate now tz df) s ds) = s_prsList s \<and>
   s_reviewsList (foldl (addReviewDate now tz df) s ds) = s_reviewsList s"
  by (induction ds arbitrary: s) (simp_all add: addReviewDate_def)

lemma lists_bounded_addReviews:
  "lists_bounded s \<Longrightarrow> lists_bounded (addReviews now tz df rn info s)"
  by (simp add: lists_bounded_def addReviews_def Let_def lists_foldl_addReviewDate
      length_foldl_addReviewedPR)

lemma um_bounded_ensureUser: "um_bounded um \<Longrightarrow> um_bounded (ensureUser u av um)"
  by (simp add: um_bounded_def ensureUser_def newUser_def lists_bounded_def)

lemma um_bounded_modifyUser:
  "um_bounded um \<Longrightarrow> (\<And>s. lists_bounded s \<Longrightarrow> lists_bounded (f s)) \<Longrightarrow>
     um_bounded (modifyUser u f um)"
  by (induction um) (auto simp: um_bounded_def modifyUser_def)

lemma um_bounded_processCommit:
  "um_bounded um \<Longrightarrow> um_bounded (processCommit now tz df rn um c)"
  by (simp add: processCommit_def um_bounded_modifyUser um_bounded_ensureUser
      lists_bounded_addCommit split: option.splits)

lemma um_bounded_processPR: "um_bounded um \<Longrightarrow> um_bounded (processPR now tz df rn um p)"
  by (simp add: processPR_def um_bounded_modifyUser um_bounded_ensureUser
      lists_bounded_addPR split: option.splits)

lemma um_bounded_processReview:
  "um_bounded um \<Longrightarrow> um_bounded (processReview now tz df rn um e)"
  by (simp add: processReview_def um_bounded_modifyUser um_bounded_ensureUser
      lists_bounded_addReviews)

lemma um_bounded_foldl:
  "(\<And>um x. um_bounded um \<Longrightarrow> um_bounded (f um x)) \<Longrightarrow> um_bounded um \<Longrightarrow>
     um_bounded (foldl f um xs)"
  by (induction xs arbitrary: um) simp_all

lemma um_bounded_processRepo: "um_bounded um \<Longrightarrow> um_bounded (processRepo now tz df um rd)"
  unfolding processRepo_def
  by (intro um_bounded_foldl um_bounded_processCommit um_bounded_processPR
      um_bounded_processReview)

lemma um_bounded_buildUserMap: "um_bounded (buildUserMap now tz df rds)"
  unfolding buildUserMap_def
  by (rule um_bounded_foldl[OF um_bounded_processRepo]) (simp_all add: um_bounded_def)

lemma aggregateStats_lists_bounded:
  assumes "r \<in> set (aggregateStats now tz rds df)"
  shows "length (commitsList r) \<le> 20 \<and> length (prsList r) \<le> 20 \<and> length (reviewsList r) \<le> 20"
proof -
  from assms obtain k s where ks: "(k, s) \<in> set (buildUserMap now tz df rds)"
    and r: "r = emit now tz df s"
    by (auto simp: aggregateStats_def)
  from ks um_bounded_buildUserMap[of now tz df rds] have "lists_bounded s"
    by (auto simp: um_bounded_def list_all_iff)
  with r show ?thesis
    by (simp add: emit_def lists_bounded_def length_jsSort)
qed

lemma sorted_jsInsert_dateDesc:
  assumes "validDate (f x)" and "\<forall>y \<in> set ys. validDate (f y)"
    and "sorted_wrt (\<lambda>a b. newerOrEq (f a) (f b)) ys"
  shows "sorted_wrt (\<lambda>a b. newerOrEq (f a) (f b)) (jsInsert (\<lambda>a b. dateDesc (f a) (f b)) x ys)"
  using assms
proof (induction ys)
  case Nil
  then show ?case by simp
next
  case (Cons y ys)
  then show ?case
    by (auto simp: set_jsInsert validDate_def newerOrEq_def dateDesc_def split: option.splits)
qed

lemma sorted_jsSort_dateDesc:
  assumes "\<forall>y \<in> set xs. validDate (f y)"
  shows "sorted_wrt (\<lambda>a b. newerOrEq (f a) (f b)) (jsSort (\<lambda>a b. dateDesc (f a) (f b)) xs)"
  using assms unfolding jsSort_def
proof (induction xs)
  case Nil
  then show ?case by simp
next
  case (Cons x xs)
  then have "sorted_wrt (\<lambda>a b. newerOrEq (f a) (f b)) (foldr (jsInsert (\<lambda>a b. dateDesc (f a) (f b))) xs [])"
    by simp
  moreover have "\<forall>y \<in> set (foldr (jsInsert (\<lambda>a b. dateDesc (f a) (f b))) xs []). validDate (f y)"
    using Cons.prems set_jsSort[of "\<lambda>a b. dateDesc (f a) (f b)" xs] by (simp add: jsSort_def)
  ultimately show ?case using Cons.prems by (simp add: sorted_jsInsert_dateDesc)
qed

lemma aggregateStats_lists_sorted:
  assumes "r \<in> set (aggregateStats now tz rds df)"
  shows "((\<forall>i \<in> set (commitsList r). validDate (ci_date i)) \<longrightarrow>
            sorted_wrt (\<lambda>a b. newerOrEq (ci_date a) (ci_date b)) (commitsList r)) \<and>
         ((\<forall>i \<in> set (prsList r). validDate (pi_date i)) \<longrightarrow>
            sorted_wrt (\<lambda>a b. newerOrEq (pi_date a) (pi_date b)) (prsList r))"
proof -
  from assms obtain s where r: "r = emit now tz df s"
    by (auto simp: aggregateStats_def)
  show ?thesis
    unfolding r emit_def
    by (simp add: sorted_jsSort_dateDesc set_jsSort)
qed

text \<open>
  C9.  The lists are cut to 20 entries while the repositories are scanned, in scanning
  order, and are sorted by date only afterwards.  On \<open>recentRepos\<close> alice has 21
  commits; her list holds the 20 commits of September and not the newest one, of
  November.
\<close>

theorem recent_commit_dropped:
  "map user (aggregateStats scenarioNow 0 recentRepos None) = [''alice''] \<and>
   map commits (aggregateStats scenarioNow 0 recentRepos None) = [21] \<and>
   map (\<lambda>r. length (commitsList r)) (aggregateStats scenarioNow 0 recentRepos None) = [20] \<and>
   map (\<lambda>r. list_ex (\<lambda>i. ci_date i = c_date newCommit) (commitsList r))
     (aggregateStats scenarioNow 0 recentRepos None) = [False] \<and>
   list_all (\<lambda>c. beforeCutoff scenarioNow None (c_date c) = False) (oldCommits @ [newCommit]) \<and>
   list_all (\<lambda>c. newerOrEq (c_date newCommit) (c_date c) \<and> c_date c \<noteq> c_date newCommit) oldCommits"
  by code_simp

section \<open>The response cache\<close>

section \<open>Cache round trip\<close>

lemma setItem_fits: "fits st k v \<Longrightarrow> setItem st k v = Some (st \<lparr> items := AList.update k v (items st) \<rparr>)"
  by (simp add: setItem_def fits_def Let_def)

lemma setItem_not_fits: "\<not> fits st k v \<Longrightarrow> setItem st k v = None"
  by (simp add: setItem_def fits_def Let_def)

lemma getItem_update: "getItem (st \<lparr> items := AList.update k v (items st) \<rparr>) k = Some v"
  by (simp add: getItem_def update_conv')

lemma items_foldl_removeItem:
  "items (foldl (\<lambda>s k. removeItem k s) st ks) = filter (\<lambda>e. fst e \<notin> set ks) (items st)"
proof (induction ks arbitrary: st)
  case Nil
  then show ?case by simp
next
  case (Cons k ks)
  show ?case
    unfolding foldl_Cons Cons.IH
    by (simp add: removeItem_def conj_commute)
qed

lemma getItem_removeItem: "getItem (removeItem k st) k = None"
  by (auto simp: getItem_def removeItem_def map_of_eq_None_iff)

lemma hasPrefix_key: "hasPrefix (CACHE_PREFIX @ key)"
  by (simp add: hasPrefix_def)

lemma getItem_clearCache: "getItem (clearCache st) (CACHE_PREFIX @ key) = None"
proof -
  have "CACHE_PREFIX @ key \<notin> fst ` set (filter (\<lambda>e. fst e \<notin> set (map fst (filter (\<lambda>(k, v). hasPrefix k) (items st)))) (items st))"
    using hasPrefix_key[of key] by (auto simp: image_iff)
  then show ?thesis
    by (simp add: getItem_def clearCache_def items_foldl_removeItem map_of_eq_None_iff)
qed

lemma getFromCache_hit:
  assumes "getItem st (CACHE_PREFIX @ key) = Some s" and "s \<noteq> []"
    and "parse s = Some (Some v, Some t)"
  shows "getFromCache parse now' key st =
     (if now' - t > CACHE_EXPIRY_MS then (None, removeItem (CACHE_PREFIX @ key) st)
      else (Some v, st))"
  using assms by (simp add: getFromCache_def expired_def)

lemma getFromCache_absent:
  "getItem st (CACHE_PREFIX @ key) = None \<Longrightarrow> getFromCache parse now' key st = (None, st)"
  by (simp add: getFromCache_def)

lemma saveToCache_stored:
  assumes "stringify v now = Some s" and "int (length s) \<le> 500 * 1024"
    and "fits st (CACHE_PREFIX @ key) s \<or> fits (clearOldCache parseTs now st) (CACHE_PREFIX @ key) s"
  shows "getItem (saveToCache stringify parseTs now key v st) (CACHE_PREFIX @ key) = Some s"
proof (cases "fits st (CACHE_PREFIX @ key) s")
  case True
  with assms(1,2) show ?thesis
    by (simp add: saveToCache_def setItem_fits getItem_update)
next
  case False
  with assms(3) have "fits (clearOldCache parseTs now st) (CACHE_PREFIX @ key) s" by simp
  with False assms(1,2) show ?thesis
    by (simp add: saveToCache_def setItem_fits setItem_not_fits Let_def getItem_update)
qed

lemma saveToCache_too_large:
  "stringify v now = Some s \<Longrightarrow> int (length s) > 500 * 1024 \<Longrightarrow>
     saveToCache stringify parseTs now key v st = st"
  by (simp add: saveToCache_def)

lemma saveToCache_no_room:
  assumes "stringify v now = Some s" and "int (length s) \<le> 500 * 1024"
    and "\<not> fits st (CACHE_PREFIX @ key) s"
    and "\<not> fits (clearOldCache parseTs now st) (CACHE_PREFIX @ key) s"
  shows "saveToCache stringify parseTs now key v st = clearCache (clearOldCache parseTs now st)"
  using assms by (simp add: saveToCache_def setItem_not_fits Let_def)

text \<open>
  C5, amended.  Let \<open>s\<close> be the serialised entry of \<open>v\<close> at the write time, and let the
  host's \<^verbatim>\<open>JSON.parse\<close> read \<open>v\<close> and the timestamp back from \<open>s\<close>.  If \<open>s\<close> has at
  most 500 * 1024 characters and the storage takes the write, at once or after the
  expired entries have been purged, then \<^verbatim>\<open>getFromCache(key)\<close> returns \<open>v\<close> as long as
  no more than 30 minutes have passed since the write, and once more than 30 minutes have
  passed it returns absent and removes the entry.  A larger entry is not written at all,
  and when the storage refuses the write twice the read returns absent.
\<close>

theorem cache_round_trip:
  assumes "stringify v now = Some s" and "s \<noteq> []" and "parse s = Some (Some v, Some now)"
  shows
    "(int (length s) \<le> 500 * 1024 \<and>
      (fits st (CACHE_PREFIX @ key) s \<or>
       fits (clearOldCache parseTs now st) (CACHE_PREFIX @ key) s) \<longrightarrow>
        (now' - now \<le> CACHE_EXPIRY_MS \<longrightarrow>
           getFromCache parse now' key (saveToCache stringify parseTs now key v st) =
             (Some v, saveToCache stringify parseTs now key v st)) \<and>
        (now' - now > CACHE_EXPIRY_MS \<longrightarrow>
           getFromCache parse now' key (saveToCache stringify parseTs now key v st) =
             (None, removeItem (CACHE_PREFIX @ key) (saveToCache stringify parseTs now key v st)) \<and>
           getItem (removeItem (CACHE_PREFIX @ key) (saveToCache stringify parseTs now key v st))
             (CACHE_PREFIX @ key) = None)) \<and>
     (int (length s) > 500 * 1024 \<longrightarrow> saveToCache stringify parseTs now key v st = st) \<and>
     (int (length s) \<le> 500 * 1024 \<and> \<not> fits st (CACHE_PREFIX @ key) s \<and>
      \<not> fits (clearOldCache parseTs now st) (CACHE_PREFIX @ key) s \<longrightarrow>
        fst (getFromCache parse now' key (saveToCache stringify parseTs now key v st)) = None)"
proof (intro conjI impI)
  assume a: "int (length s) \<le> 500 * 1024 \<and>
      (fits st (CACHE_PREFIX @ key) s \<or> fits (clearOldCache parseTs now st) (CACHE_PREFIX @ key) s)"
  then have g: "getItem (saveToCache stringify parseTs now key v st) (CACHE_PREFIX @ key) = Some s"
    using assms(1) saveToCache_stored[of stringify v now s st key parseTs] by blast
  note h = getFromCache_hit[where parse = parse and now' = now', OF g assms(2) assms(3)]
  {
    assume "now' - now \<le> CACHE_EXPIRY_MS"
    with h show "getFromCache parse now' key (saveToCache stringify parseTs now key v st) =
             (Some v, saveToCache stringify parseTs now key v st)" by simp
  }
  {
    assume "now' - now > CACHE_EXPIRY_MS"
    with h show "getFromCache parse now' key (saveToCache stringify parseTs now key v st) =
             (None, removeItem (CACHE_PREFIX @ key) (saveToCache stringify parseTs now key v st))"
      by simp
  }
  show "getItem (removeItem (CACHE_PREFIX @ key) (saveToCache stringify parseTs now key v st))
             (CACHE_PREFIX @ key) = None"
    by (rule getItem_removeItem)
next
  assume "int (length s) > 500 * 1024"
  with assms(1) show "saveToCache stringify parseTs now key v st = st"
    by (rule saveToCache_too_large)
next
  assume a: "int (length s) \<le> 500 * 1024 \<and> \<not> fits st (CACHE_PREFIX @ key) s \<and>
      \<not> fits (clearOldCache parseTs now st) (CACHE_PREFIX @ key) s"
  then have "saveToCache stringify parseTs now key v st = clearCache (clearOldCache parseTs now st)"
    using assms(1) saveToCache_no_room[of stringify v now s st key parseTs] by blast
  then show "fst (getFromCache parse now' key (saveToCache stringify parseTs now key v st)) = None"
    by (simp add: getFromCache_absent getItem_clearCache)
qed

lemma digit_nth:
  "0 \<le> k \<Longrightarrow> k < 10 \<Longrightarrow>
     isDigit (''0123456789'' ! nat k) \<and> digitVal (''0123456789'' ! nat k) = k"
proof -
  have "\<forall>k \<in> set [0 ..< 10]. isDigit (''0123456789'' ! k) \<and>
      digitVal (''0123456789'' ! k) = int k"
    by code_simp
  then have "\<And>j. j < 10 \<Longrightarrow> isDigit (''0123456789'' ! j) \<and> digitVal (''0123456789'' ! j) = int j"
    by simp
  from this[of "nat k"]
  show "0 \<le> k \<Longrightarrow> k < 10 \<Longrightarrow>
     isDigit (''0123456789'' ! nat k) \<and> digitVal (''0123456789'' ! nat k) = k"
    by simp
qed

lemma digits_of_digits:
  "0 \<le> n \<Longrightarrow> digits_of n \<noteq> [] \<and> (\<forall>c \<in> set (digits_of n). isDigit c)"
proof (induction n rule: digits_of.induct)
  case (1 n)
  show ?case
  proof (cases "n < 10")
    case True
    with 1(2) show ?thesis
      by (subst digits_of.simps, subst (2) digits_of.simps) (simp add: digit_nth)
  next
    case False
    with 1 have ih: "\<forall>c \<in> set (digits_of (n div 10)). isDigit c" by simp
    have "0 \<le> n mod 10" "n mod 10 < 10" by simp_all
    then have "isDigit (''0123456789'' ! nat (n mod 10))" using digit_nth by blast
    with ih False show ?thesis
      by (subst digits_of.simps, subst (2) digits_of.simps) simp
  qed
qed

lemma intOfDigits_snoc: "intOfDigits (ds @ [c]) = 10 * intOfDigits ds + digitVal c"
  by (simp add: intOfDigits_def)

lemma intOfDigits_digits_of: "0 \<le> n \<Longrightarrow> intOfDigits (digits_of n) = n"
proof (induction n rule: digits_of.induct)
  case (1 n)
  show ?case
  proof (cases "n < 10")
    case True
    with 1(2) show ?thesis
      by (subst digits_of.simps) (simp add: intOfDigits_def digit_nth)
  next
    case False
    with 1 have ih: "intOfDigits (digits_of (n div 10)) = n div 10" by simp
    have "0 \<le> n mod 10" "n mod 10 < 10" by simp_all
    then have "digitVal (''0123456789'' ! nat (n mod 10)) = n mod 10" using digit_nth by blast
    with ih False show ?thesis
      by (subst digits_of.simps) (simp add: intOfDigits_snoc)
  qed
qed

lemma takeWhile_digits:
  assumes "\<forall>c \<in> set ds. isDigit c" and "\<not> isDigit x"
  shows "takeWhile isDigit (ds @ x # xs) = ds \<and> dropWhile isDigit (ds @ x # xs) = x # xs"
  using assms by (induction ds) simp_all

lemma rev_entryMid: "rev entryMid = CHR '':'' # rev ('','' @ [dq] @ ''timestamp'' @ [dq])"
  by (simp add: entryMid_def)

lemma colon_not_digit: "\<not> isDigit (CHR '':'')"
  by (simp add: isDigit_def)

lemma unwrap_wrap:
  assumes "0 \<le> ts"
  shows "unwrapEntry (entryHead @ txt @ entryMid @ show_int ts @ ''}'') = Some (Some txt, Some ts)"
proof -
  let ?ds = "digits_of ts"
  let ?m = "rev ('','' @ [dq] @ ''timestamp'' @ [dq])"
  have sh: "show_int ts = ?ds" using assms by (simp add: show_int_def)
  have r: "rev (entryHead @ txt @ entryMid @ show_int ts @ ''}'') =
      CHR ''}'' # (rev ?ds @ CHR '':'' # (?m @ rev txt @ rev entryHead))"
    unfolding sh by (simp add: rev_entryMid)
  have d: "\<forall>c \<in> set (rev ?ds). isDigit c" "rev ?ds \<noteq> []"
    using digits_of_digits[OF assms] by simp_all
  note tw = takeWhile_digits[OF d(1) colon_not_digit, of "?m @ rev txt @ rev entryHead"]
  have lm: "length entryMid = Suc (length ?m)" by (simp add: entryMid_def)
  have mid: "take (length entryMid) (CHR '':'' # (?m @ rev txt @ rev entryHead)) = rev entryMid"
    unfolding rev_entryMid lm by simp
  have body: "rev (drop (length entryMid) (CHR '':'' # (?m @ rev txt @ rev entryHead))) = entryHead @ txt"
    unfolding lm by simp
  have n: "intOfDigits (rev (rev ?ds)) = ts"
    using assms by (simp add: intOfDigits_digits_of)
  show ?thesis
    unfolding unwrapEntry_def r
    using tw d(2) mid body n by (simp add: Let_def)
qed

lemma length_smallEntry: "length smallEntry = 40"
  unfolding smallEntry_def by code_simp

lemma fits_small: "fits emptyStorage (CACHE_PREFIX @ ''repos_acme'') smallEntry"
proof -
  have "used (AList.update (CACHE_PREFIX @ ''repos_acme'') smallEntry (items emptyStorage))
      = int (length (CACHE_PREFIX @ ''repos_acme'')) + int (length smallEntry)"
    by (simp add: used_def emptyStorage_def)
  also have "\<dots> = 75"
    unfolding length_smallEntry by (simp add: CACHE_PREFIX_def)
  finally show ?thesis by (simp add: fits_def emptyStorage_def)
qed

theorem cache_round_trip_witness:
  "getFromCache unwrapEntry (scenarioNow + 1) ''repos_acme'' savedSmall = (Some ''[1,2]'', savedSmall) \<and>
   getFromCache unwrapEntry (scenarioNow + 30 * 60 * 1000 + 1) ''repos_acme'' savedSmall =
     (None, removeItem (CACHE_PREFIX @ ''repos_acme'') savedSmall) \<and>
   getItem (removeItem (CACHE_PREFIX @ ''repos_acme'') savedSmall) (CACHE_PREFIX @ ''repos_acme'') = None \<and>
   getItem savedSmall (CACHE_PREFIX @ ''repos_acme'') = Some smallEntry"
proof -
  have w: "wrapEntry ''[1,2]'' scenarioNow = Some smallEntry"
    by (simp add: wrapEntry_def smallEntry_def)
  have ne: "smallEntry \<noteq> []" by (simp add: smallEntry_def entryHead_def)
  have u: "unwrapEntry smallEntry = Some (Some ''[1,2]'', Some scenarioNow)"
    unfolding smallEntry_def by (rule unwrap_wrap) (simp add: scenarioNow_def)
  have le: "int (length smallEntry) \<le> 500 * 1024" by (simp add: length_smallEntry)
  note T = cache_round_trip[where stringify = wrapEntry and parse = unwrapEntry
      and parseTs = unwrapTimestamp and st = emptyStorage
      and key = "''repos_acme''", OF w ne u]
  have 1: "getFromCache unwrapEntry (scenarioNow + 1) ''repos_acme'' savedSmall = (Some ''[1,2]'', savedSmall)"
    using T[of "scenarioNow + 1"] le fits_small by (simp add: savedSmall_def CACHE_EXPIRY_MS_def)
  have 2: "getFromCache unwrapEntry (scenarioNow + 30 * 60 * 1000 + 1) ''repos_acme'' savedSmall =
     (None, removeItem (CACHE_PREFIX @ ''repos_acme'') savedSmall) \<and>
   getItem (removeItem (CACHE_PREFIX @ ''repos_acme'') savedSmall) (CACHE_PREFIX @ ''repos_acme'') = None"
    using T[of "scenarioNow + 30 * 60 * 1000 + 1"] le fits_small
    by (simp add: savedSmall_def CACHE_EXPIRY_MS_def)
  have 3: "getItem savedSmall (CACHE_PREFIX @ ''repos_acme'') = Some smallEntry"
    unfolding savedSmall_def
    using saveToCache_stored[where stringify = wrapEntry and parseTs = unwrapTimestamp, OF w le] fits_small
    by blast
  from 1 2 3 show ?thesis by simp
qed

text \<open>
  C5, as the claim states it, fails.  A value whose entry serialises to more than
  500 * 1024 characters is not written, so the read that follows returns absent; and a
  read exactly 30 minutes after the write still returns the value.
\<close>

theorem cache_round_trip_counterexample:
  "wrapEntry bigText scenarioNow = Some (entryHead @ bigText @ entryMid @ show_int scenarioNow @ ''}'') \<and>
   unwrapEntry (entryHead @ bigText @ entryMid @ show_int scenarioNow @ ''}'') =
     Some (Some bigText, Some scenarioNow) \<and>
   int (length bigText) < capacity emptyStorage \<and>
   fst (getFromCache unwrapEntry scenarioNow ''repos_acme''
          (saveToCache wrapEntry unwrapTimestamp scenarioNow ''repos_acme'' bigText emptyStorage)) = None \<and>
   fst (getFromCache unwrapEntry (scenarioNow + 30 * 60 * 1000) ''repos_acme'' savedSmall) = Some ''[1,2]''"
proof -
  let ?s = "entryHead @ bigText @ entryMid @ show_int scenarioNow @ ''}''"
  have w: "wrapEntry bigText scenarioNow = Some ?s" by (simp add: wrapEntry_def)
  have u: "unwrapEntry ?s = Some (Some bigText, Some scenarioNow)"
    by (rule unwrap_wrap) (simp add: scenarioNow_def)
  have lb: "length bigText = 500 * 1024 + 2" by (simp add: bigText_def)
  have c: "int (length bigText) < capacity emptyStorage"
    unfolding lb by (simp add: emptyStorage_def)
  have big: "int (length ?s) > 500 * 1024"
    using lb by simp
  have "saveToCache wrapEntry unwrapTimestamp scenarioNow ''repos_acme'' bigText emptyStorage = emptyStorage"
    using saveToCache_too_large[where stringify = wrapEntry and parseTs = unwrapTimestamp, OF w big] .
  moreover have "getItem emptyStorage (CACHE_PREFIX @ ''repos_acme'') = None"
    by (simp add: getItem_def emptyStorage_def)
  ultimately have g: "fst (getFromCache unwrapEntry scenarioNow ''repos_acme''
          (saveToCache wrapEntry unwrapTimestamp scenarioNow ''repos_acme'' bigText emptyStorage)) = None"
    by (simp add: getFromCache_absent)
  have w2: "wrapEntry ''[1,2]'' scenarioNow = Some smallEntry"
    by (simp add: wrapEntry_def smallEntry_def)
  have s3: "getItem savedSmall (CACHE_PREFIX @ ''repos_acme'') = Some smallEntry"
    unfolding savedSmall_def
    using saveToCache_stored[where stringify = wrapEntry and parseTs = unwrapTimestamp, OF w2] fits_small
    by (simp add: length_smallEntry)
  have ne: "smallEntry \<noteq> []" by (simp add: smallEntry_def entryHead_def)
  have u2: "unwrapEntry smallEntry = Some (Some ''[1,2]'', Some scenarioNow)"
    unfolding smallEntry_def by (rule unwrap_wrap) (simp add: scenarioNow_def)
  have b: "fst (getFromCache unwrapEntry (scenarioNow + 30 * 60 * 1000) ''repos_acme'' savedSmall) = Some ''[1,2]''"
    using getFromCache_hit[where parse = unwrapEntry, OF s3 ne u2, of "scenarioNow + 30 * 60 * 1000"]
    by (simp add: CACHE_EXPIRY_MS_def)
  from w u c g b show ?thesis by simp
qed

section \<open>The network and the world of one run\<close>

section \<open>Pull requests since a date\<close>

lemma unenriched_basicPR: "unenriched (basicPR raw) = basicPR raw"
  by (simp add: unenriched_def basicPR_def)

lemma unenriched_withDetail: "unenriched (withDetail d p) = unenriched p"
  by (simp add: unenriched_def withDetail_def)

lemma pullPages_stop:
  assumes "page \<le> 10"
    and "h_net h token (w_requests w) (GetPulls org repo page) = (Response r, dt)"
    and "ok r" and "rs_body r = BPulls data"
    and "data \<noteq> []" and "filter (keptSince s) data = []"
  shows "pullPages (Suc n) h token org repo (Some s) page prs w =
     Some (Inr prs, w \<lparr> w_requests := w_requests w @ [GetPulls org repo page],
                        w_clock := w_clock w + int dt \<rparr>)"
  using assms by (simp add: fetch_def)

lemma pullPages_returns:
  "0 < fuel \<Longrightarrow> 11 < fuel + page \<Longrightarrow>
     pullPages fuel h token org repo (Some s) page prs w \<noteq> None"
proof (induction fuel arbitrary: page prs w)
  case 0
  then show ?case by simp
next
  case (Suc n)
  show ?case
  proof (cases "page > 10")
    case True
    then show ?thesis by simp
  next
    case False
    with Suc.prems have "0 < n" "11 < n + (page + 1)" by simp_all
    then have ih: "pullPages n h token org repo (Some s) (page + 1) prs' w' \<noteq> None" for prs' w'
      by (rule Suc.IH)
    from False show ?thesis
      using ih by (simp add: Let_def split: prod.splits outcome.splits body.splits)
  qed
qed

lemma requests_enrichOne:
  "w_requests (snd (enrichOne h token org repo p w)) =
     w_requests w @ [GetPullDetail org repo (p_number p)]"
  by (simp add: enrichOne_def fetch_def split: prod.splits outcome.splits body.splits)

lemma unenriched_enrichOne:
  "unenriched (fst (enrichOne h token org repo p w)) = unenriched p"
  by (simp add: enrichOne_def unenriched_withDetail split: prod.splits outcome.splits body.splits)

lemma enrichPRs_requests:
  "\<exists>ds. w_requests (snd (enrichPRs h token org repo k prs w)) = w_requests w @ ds \<and>
        (\<forall>d \<in> set ds. isPullDetail org repo d)"
proof (induction prs arbitrary: k w)
  case Nil
  then show ?case by simp
next
  case (Cons p ps)
  show ?case
  proof (cases "truthy_date (p_merged_at p) \<and> k < 30")
    case True
    obtain p' w1 where e: "enrichOne h token org repo p w = (p', w1)"
      by (cases "enrichOne h token org repo p w")
    then have r1: "w_requests w1 = w_requests w @ [GetPullDetail org repo (p_number p)]"
      using requests_enrichOne[of h token org repo p w] by simp
    from Cons.IH[of "Suc k" w1] obtain ds where
      "w_requests (snd (enrichPRs h token org repo (Suc k) ps w1)) = w_requests w1 @ ds"
      and "\<forall>d \<in> set ds. isPullDetail org repo d" by blast
    with True e r1 show ?thesis
      by (intro exI[of _ "GetPullDetail org repo (p_number p) # ds"])
        (simp add: isPullDetail_def split_beta)
  next
    case False
    from Cons.IH[of "if truthy_date (p_merged_at p) then Suc k else k" w] False
    show ?thesis by (cases "truthy_date (p_merged_at p)") (simp_all add: split_beta)
  qed
qed

lemma enrichPRs_unenriched:
  "map unenriched (fst (enrichPRs h token org repo k prs w)) = map unenriched prs"
proof (induction prs arbitrary: k w)
  case Nil
  then show ?case by simp
next
  case (Cons p ps)
  show ?case
  proof (cases "truthy_date (p_merged_at p) \<and> k < 30")
    case True
    obtain p' w1 where e: "enrichOne h token org repo p w = (p', w1)"
      by (cases "enrichOne h token org repo p w")
    then have "unenriched p' = unenriched p"
      using unenriched_enrichOne[of h token org repo p w] by simp
    with True e Cons.IH[of "Suc k" w1] show ?thesis
      by (simp add: split_beta)
  next
    case False
    from Cons.IH[of "if truthy_date (p_merged_at p) then Suc k else k" w] False
    show ?thesis by (cases "truthy_date (p_merged_at p)") (simp_all add: split_beta)
  qed
qed

lemma servedPull_more:
  assumes "servedPull h token org repo before after raw"
  shows "servedPull h token org repo before (after @ ext) raw"
proof -
  from assms obtain pre page rest r dt dat where
    a: "after = before @ pre @ GetPulls org repo page # rest"
    and n: "h_net h token (before @ pre) (GetPulls org repo page) = (Response r, dt)"
    and o: "ok r" "rs_body r = BPulls dat" "raw \<in> set dat"
    unfolding servedPull_def by blast
  from a have "after @ ext = before @ pre @ GetPulls org repo page # (rest @ ext)" by simp
  with n o show ?thesis unfolding servedPull_def by blast
qed

lemma keptFrom_more:
  "keptFrom h token org repo s before after p \<Longrightarrow>
     keptFrom h token org repo s before (after @ ext) p"
  unfolding keptFrom_def using servedPull_more by blast

lemma keptFrom_unenriched:
  "unenriched p = unenriched q \<Longrightarrow> keptFrom h token org repo s before after q \<Longrightarrow>
     keptFrom h token org repo s before after p"
  unfolding keptFrom_def by simp

lemma keptSince_precedence:
  "keptSince s raw =
     (if truthy_date (rp_merged_at raw) then onOrAfter s (rp_merged_at raw)
      else if truthy_date (rp_closed_at raw) then onOrAfter s (rp_closed_at raw)
      else onOrAfter s (rp_updated_at raw))"
  by (simp add: keptSince_def effectiveDate_def date_or_def onOrAfter_def)

lemma pullPages_keptFrom:
  "pullPages fuel h token org repo (Some s) page prs w = Some (Inr out, w') \<Longrightarrow>
     \<exists>pre. w_requests w = base @ pre \<Longrightarrow>
     \<forall>p \<in> set prs. keptFrom h token org repo s base (w_requests w) p \<Longrightarrow>
     (\<forall>p \<in> set out. keptFrom h token org repo s base (w_requests w') p) \<and>
     (\<exists>pre. w_requests w' = base @ pre)"
proof (induction fuel arbitrary: page prs w)
  case 0
  then show ?case by simp
next
  case (Suc n)
  show ?case
  proof (cases "page > 10")
    case True
    with Suc.prems show ?thesis by simp
  next
    case False
    let ?req = "GetPulls org repo page"
    obtain o1 w1 where f: "fetch h token ?req w = (o1, w1)"
      by (cases "fetch h token ?req w")
    then have r1: "w_requests w1 = w_requests w @ [?req]"
      and o1: "o1 = fst (h_net h token (w_requests w) ?req)"
      by (auto simp: fetch_def)
    from Suc.prems(2) obtain pre where pre: "w_requests w = base @ pre" by blast
    have ext1: "\<exists>pre. w_requests w1 = base @ pre"
      using r1 pre by simp
    have old1: "\<forall>p \<in> set prs. keptFrom h token org repo s base (w_requests w1) p"
      using Suc.prems(3) unfolding r1 by (auto intro: keptFrom_more)
    show ?thesis
    proof (cases o1)
      case Rejected
      with Suc.prems(1) False f show ?thesis by simp
    next
      case (Response r)
      show ?thesis
      proof (cases "ok r")
        case False
        with Suc.prems(1) \<open>\<not> page > 10\<close> f Response have "out = prs" "w' = w1" by simp_all
        with old1 ext1 show ?thesis by simp
      next
        case True
        show ?thesis
        proof (cases "rs_body r")
          case (BPulls data)
          let ?f = "filter (keptSince s) data"
          obtain dt where n: "h_net h token (base @ pre) ?req = (Response r, dt)"
            using o1 Response pre by (cases "h_net h token (base @ pre) ?req") simp
          have served: "servedPull h token org repo base (w_requests w1) raw" if "raw \<in> set data" for raw
            unfolding servedPull_def
            using that n True BPulls r1 pre
            by (intro exI[of _ pre] exI[of _ page] exI[of _ "[]"] exI[of _ r] exI[of _ dt]
                  exI[of _ data]) simp
          have new: "\<forall>p \<in> set (prs @ map basicPR ?f). keptFrom h token org repo s base (w_requests w1) p"
          proof
            fix p assume "p \<in> set (prs @ map basicPR ?f)"
            then consider "p \<in> set prs" | raw where "raw \<in> set data" "keptSince s raw" "p = basicPR raw"
              by auto
            then show "keptFrom h token org repo s base (w_requests w1) p"
            proof cases
              case 1
              with old1 show ?thesis by blast
            next
              case 2
              with served[of raw] show ?thesis
                unfolding keptFrom_def by (auto simp: unenriched_basicPR)
            qed
          qed
          show ?thesis
          proof (cases "data \<noteq> [] \<and> ?f = []")
            case True
            with Suc.prems(1) \<open>\<not> page > 10\<close> f Response \<open>ok r\<close> BPulls
            have "out = prs" "w' = w1" by simp_all
            with old1 ext1 show ?thesis by simp
          next
            case stop: False
            show ?thesis
            proof (cases "length data < 100")
              case True
              with Suc.prems(1) \<open>\<not> page > 10\<close> f Response \<open>ok r\<close> BPulls stop
              have "out = prs @ map basicPR ?f" "w' = w1" by (simp_all add: Let_def)
              with new ext1 show ?thesis by simp
            next
              case False
              with Suc.prems(1) \<open>\<not> page > 10\<close> f Response \<open>ok r\<close> BPulls stop
              have "pullPages n h token org repo (Some s) (page + 1) (prs @ map basicPR ?f) w1 =
                  Some (Inr out, w')"
                by (simp add: Let_def)
              from Suc.IH[OF this ext1 new] show ?thesis .
            qed
          qed
        qed (use Suc.prems(1) \<open>\<not> page > 10\<close> f Response True in simp_all)
      qed
    qed
  qed
qed

lemma requests_cacheGet: "w_requests (snd (cacheGet parse key w)) = w_requests w"
  by (simp add: cacheGet_def)

lemma fetchPullRequests_keptFrom:
  assumes miss: "fst (cacheGet (h_parsePRs h) (prsKey org repo (Some s)) w) = None"
    and run: "fetchPullRequests fuel h token org repo (Some s) w = Some (Inr out, w')"
  shows "\<forall>p \<in> set out. keptFrom h token org repo s (w_requests w) (w_requests w') p"
proof -
  let ?key = "prsKey org repo (Some s)"
  from miss obtain w0 where c: "cacheGet (h_parsePRs h) ?key w = (None, w0)"
    by (cases "cacheGet (h_parsePRs h) ?key w") auto
  then have r0: "w_requests w0 = w_requests w"
    using requests_cacheGet[of "h_parsePRs h" ?key w] by simp
  from run obtain prs1 w3 where l: "pullPages fuel h token org repo (Some s) 1 [] w0 = Some (Inr prs1, w3)"
    and o: "out = fst (enrichPRs h token org repo 0 prs1 w3)"
    and w': "w' = cachePut (h_stringifyPRs h) h ?key out (snd (enrichPRs h token org repo 0 prs1 w3))"
    unfolding fetchPullRequests_def c
    by (auto simp: split_beta split: option.splits sum.splits)
  have "\<exists>pre. w_requests w0 = w_requests w @ pre" using r0 by simp
  from pullPages_keptFrom[OF l this]
  have k: "\<forall>p \<in> set prs1. keptFrom h token org repo s (w_requests w) (w_requests w3) p"
    by simp
  obtain ds where ds: "w_requests (snd (enrichPRs h token org repo 0 prs1 w3)) = w_requests w3 @ ds"
    using enrichPRs_requests[of h token org repo 0 prs1 w3] by blast
  have rw: "w_requests w' = w_requests w3 @ ds"
    unfolding w' using ds by (simp add: cachePut_def)
  have m: "map unenriched out = map unenriched prs1"
    unfolding o by (rule enrichPRs_unenriched)
  show ?thesis
  proof
    fix p assume "p \<in> set out"
    then have "unenriched p \<in> set (map unenriched prs1)"
      using m by (metis image_eqI list.set_map)
    then obtain q where q: "q \<in> set prs1" "unenriched p = unenriched q" by auto
    from k q(1) have "keptFrom h token org repo s (w_requests w) (w_requests w3 @ ds) q"
      by (auto intro: keptFrom_more)
    with q(2) show "keptFrom h token org repo s (w_requests w) (w_requests w') p"
      unfolding rw by (rule keptFrom_unenriched)
  qed
qed

text \<open>
  C7.  With a since-date \<open>s\<close>, when the answer does not come from the cache, every pull
  request that \<^verbatim>\<open>fetchPullRequests\<close> returns is the record of a pull request that the
  server listed on one of the pages requested in this call and that the date filter kept;
  the filter keeps a pull request whose \<^verbatim>\<open>merged_at\<close> is on or after \<open>s\<close>, or, when it
  has no \<^verbatim>\<open>merged_at\<close>, whose \<^verbatim>\<open>closed_at\<close> is, or, when it has neither, whose
  \<^verbatim>\<open>updated_at\<close> is.  Whenever the page the loop fetches holds at least one pull
  request and the filter keeps none of them, the loop returns right there with the pull
  requests kept so far, having sent only that page's request; after the loop only
  pull-request details are requested.  With a since-date the loop ends within 10 pages,
  so 11 units of fuel always suffice.
\<close>

theorem fetchPullRequests_since:
  "(fst (cacheGet (h_parsePRs h) (prsKey org repo (Some s)) w) = None \<and>
    fetchPullRequests fuel h token org repo (Some s) w = Some (Inr out, w') \<longrightarrow>
      (\<forall>p \<in> set out. keptFrom h token org repo s (w_requests w) (w_requests w') p)) \<and>
   keptSince s raw =
     (if truthy_date (rp_merged_at raw) then onOrAfter s (rp_merged_at raw)
      else if truthy_date (rp_closed_at raw) then onOrAfter s (rp_closed_at raw)
      else onOrAfter s (rp_updated_at raw)) \<and>
   (page \<le> 10 \<and> h_net h token (w_requests w1) (GetPulls org repo page) = (Response r, dt) \<and>
    ok r \<and> rs_body r = BPulls dat \<and> dat \<noteq> [] \<and> filter (keptSince s) dat = [] \<longrightarrow>
      pullPages (Suc n) h token org repo (Some s) page prs w1 =
        Some (Inr prs, w1 \<lparr> w_requests := w_requests w1 @ [GetPulls org repo page],
                              w_clock := w_clock w1 + int dt \<rparr>)) \<and>
   (fst (cacheGet (h_parsePRs h) (prsKey org repo (Some s)) w) = None \<and>
    pullPages fuel h token org repo (Some s) 1 []
      (snd (cacheGet (h_parsePRs h) (prsKey org repo (Some s)) w)) = Some (Inr prs0, w2) \<longrightarrow>
      (\<exists>res wf. fetchPullRequests fuel h token org repo (Some s) w = Some (Inr res, wf) \<and>
         map unenriched res = map unenriched prs0 \<and>
         (\<exists>ds. w_requests wf = w_requests w2 @ ds \<and> (\<forall>d \<in> set ds. isPullDetail org repo d)))) \<and>
   (11 \<le> fuel \<longrightarrow> fetchPullRequests fuel h token org repo (Some s) w \<noteq> None)"
proof (intro conjI impI)
  let ?key = "prsKey org repo (Some s)"
  let ?w0 = "snd (cacheGet (h_parsePRs h) ?key w)"
  {
    assume a: "fst (cacheGet (h_parsePRs h) ?key w) = None \<and>
      fetchPullRequests fuel h token org repo (Some s) w = Some (Inr out, w')"
    then show "\<forall>p \<in> set out. keptFrom h token org repo s (w_requests w) (w_requests w') p"
      using fetchPullRequests_keptFrom[of h org repo s w fuel token out w'] by blast
  }
  show "keptSince s raw =
     (if truthy_date (rp_merged_at raw) then onOrAfter s (rp_merged_at raw)
      else if truthy_date (rp_closed_at raw) then onOrAfter s (rp_closed_at raw)
      else onOrAfter s (rp_updated_at raw))"
    by (rule keptSince_precedence)
  {
    assume "page \<le> 10 \<and> h_net h token (w_requests w1) (GetPulls org repo page) = (Response r, dt) \<and>
      ok r \<and> rs_body r = BPulls dat \<and> dat \<noteq> [] \<and> filter (keptSince s) dat = []"
    then show "pullPages (Suc n) h token org repo (Some s) page prs w1 =
        Some (Inr prs, w1 \<lparr> w_requests := w_requests w1 @ [GetPulls org repo page],
                              w_clock := w_clock w1 + int dt \<rparr>)"
      using pullPages_stop[of page h token w1 org repo r dt dat s n prs] by blast
  }
  {
    assume a: "fst (cacheGet (h_parsePRs h) ?key w) = None \<and>
      pullPages fuel h token org repo (Some s) 1 [] ?w0 = Some (Inr prs0, w2)"
    then obtain w0 where c: "cacheGet (h_parsePRs h) ?key w = (None, w0)"
      by (cases "cacheGet (h_parsePRs h) ?key w") auto
    with a have l: "pullPages fuel h token org repo (Some s) 1 [] w0 = Some (Inr prs0, w2)"
      by simp
    let ?e = "enrichPRs h token org repo 0 prs0 w2"
    have f: "fetchPullRequests fuel h token org repo (Some s) w =
        Some (Inr (fst ?e), cachePut (h_stringifyPRs h) h ?key (fst ?e) (snd ?e))"
      unfolding fetchPullRequests_def c using l by (simp add: split_beta)
    have r: "w_requests (cachePut (h_stringifyPRs h) h ?key (fst ?e) (snd ?e)) = w_requests (snd ?e)"
      by (simp add: cachePut_def)
    from enrichPRs_requests[of h token org repo 0 prs0 w2] enrichPRs_unenriched[of h token org repo 0 prs0 w2] f r
    show "\<exists>res wf. fetchPullRequests fuel h token org repo (Some s) w = Some (Inr res, wf) \<and>
         map unenriched res = map unenriched prs0 \<and>
         (\<exists>ds. w_requests wf = w_requests w2 @ ds \<and> (\<forall>d \<in> set ds. isPullDetail org repo d))"
      by auto
  }
  {
    assume "11 \<le> fuel"
    then have "pullPages fuel h token org repo (Some s) 1 [] ?w0 \<noteq> None"
      by (intro pullPages_returns) simp_all
    then obtain res where "pullPages fuel h token org repo (Some s) 1 [] ?w0 = Some res"
      by blast
    then show "fetchPullRequests fuel h token org repo (Some s) w \<noteq> None"
      unfolding fetchPullRequests_def
      by (simp add: split_beta split: option.splits sum.splits)
  }
qed

lemma twoPulls_run:
  "fetchPullRequests 11 twoPullsHost ''t'' ''acme'' ''A'' (Some weekAgo) startWorld =
     Some (Inr [pullNine],
           startWorld \<lparr> w_requests := [GetPulls ''acme'' ''A'' 1, GetPullDetail ''acme'' ''A'' 9],
                        w_clock := scenarioNow + 200 \<rparr>)"
  by code_simp

lemma fullPages_run:
  "fetchPullRequests 11 fullPagesHost ''t'' ''acme'' ''A'' (Some weekAgo) startWorld =
     Some (Inr [],
           startWorld \<lparr> w_requests := [GetPulls ''acme'' ''A'' 1],
                        w_clock := scenarioNow + 120 \<rparr>)"
  by code_simp

lemma startWorld_miss:
  "fst (cacheGet parse key startWorld) = None"
  by (simp add: cacheGet_def getFromCache_def getItem_def startWorld_def emptyStorage_def)

theorem fetchPullRequests_since_witness:
  "fetchPullRequests 11 twoPullsHost ''t'' ''acme'' ''A'' (Some weekAgo) startWorld =
     Some (Inr [pullNine],
           startWorld \<lparr> w_requests := [GetPulls ''acme'' ''A'' 1, GetPullDetail ''acme'' ''A'' 9],
                        w_clock := scenarioNow + 200 \<rparr>) \<and>
   keptFrom twoPullsHost ''t'' ''acme'' ''A'' weekAgo []
     [GetPulls ''acme'' ''A'' 1, GetPullDetail ''acme'' ''A'' 9] pullNine \<and>
   keptSince weekAgo newPull \<and> onOrAfter weekAgo (rp_merged_at newPull) \<and>
   length (replicate 100 oldPull) = 100 \<and>
   filter (keptSince weekAgo) (replicate 100 oldPull) = [] \<and>
   pullPages 1 fullPagesHost ''t'' ''acme'' ''A'' (Some weekAgo) 1 [] startWorld =
     Some (Inr [],
           startWorld \<lparr> w_requests := w_requests startWorld @ [GetPulls ''acme'' ''A'' 1],
                        w_clock := w_clock startWorld + int 120 \<rparr>) \<and>
   fetchPullRequests 11 fullPagesHost ''t'' ''acme'' ''A'' (Some weekAgo) startWorld =
     Some (Inr [],
           startWorld \<lparr> w_requests := [GetPulls ''acme'' ''A'' 1],
                        w_clock := scenarioNow + 120 \<rparr>)"
proof -
  let ?W = "startWorld \<lparr> w_requests := [GetPulls ''acme'' ''A'' 1, GetPullDetail ''acme'' ''A'' 9],
                        w_clock := scenarioNow + 200 \<rparr>"
  have A: "fst (cacheGet (h_parsePRs twoPullsHost) (prsKey ''acme'' ''A'' (Some weekAgo)) startWorld) = None \<and>
      fetchPullRequests 11 twoPullsHost ''t'' ''acme'' ''A'' (Some weekAgo) startWorld =
        Some (Inr [pullNine], ?W) \<longrightarrow>
      (\<forall>p \<in> set [pullNine].
         keptFrom twoPullsHost ''t'' ''acme'' ''A'' weekAgo (w_requests startWorld) (w_requests ?W) p)"
    by (rule fetchPullRequests_since[THEN conjunct1])
  have k0: "keptFrom twoPullsHost ''t'' ''acme'' ''A'' weekAgo (w_requests startWorld)
     (w_requests ?W) pullNine"
    using A twoPulls_run
      startWorld_miss[of "h_parsePRs twoPullsHost" "prsKey ''acme'' ''A'' (Some weekAgo)"]
    by simp
  have "w_requests startWorld = []"
    "w_requests ?W = [GetPulls ''acme'' ''A'' 1, GetPullDetail ''acme'' ''A'' 9]"
    by (simp_all add: startWorld_def)
  with k0 have k: "keptFrom twoPullsHost ''t'' ''acme'' ''A'' weekAgo []
     [GetPulls ''acme'' ''A'' 1, GetPullDetail ''acme'' ''A'' 9] pullNine"
    by simp
  have P: "keptSince weekAgo newPull =
     (if truthy_date (rp_merged_at newPull) then onOrAfter weekAgo (rp_merged_at newPull)
      else if truthy_date (rp_closed_at newPull) then onOrAfter weekAgo (rp_closed_at newPull)
      else onOrAfter weekAgo (rp_updated_at newPull))"
    by (rule fetchPullRequests_since[THEN conjunct2, THEN conjunct1])
  have m: "truthy_date (rp_merged_at newPull)" by (simp add: newPull_def)
  have oa: "onOrAfter weekAgo (rp_merged_at newPull)" by code_simp
  with P m have kn: "keptSince weekAgo newPull" by simp
  have old: "\<not> keptSince weekAgo oldPull"
    by code_simp
  then have f: "filter (keptSince weekAgo) (replicate 100 oldPull) = []"
    by simp
  have n: "h_net fullPagesHost ''t'' (w_requests startWorld) (GetPulls ''acme'' ''A'' 1) =
      (Response (okResponse (BPulls (replicate 100 oldPull))), 120)"
    by (simp add: fullPagesHost_def stubHost_def)
  have o: "ok (okResponse (BPulls (replicate 100 oldPull)))"
    by (simp add: ok_def okResponse_def)
  have b: "rs_body (okResponse (BPulls (replicate 100 oldPull))) = BPulls (replicate 100 oldPull)"
    by (simp add: okResponse_def)
  have ne: "replicate 100 oldPull \<noteq> []" by simp
  have B: "(1::nat) \<le> 10 \<and>
      h_net fullPagesHost ''t'' (w_requests startWorld) (GetPulls ''acme'' ''A'' 1) =
        (Response (okResponse (BPulls (replicate 100 oldPull))), 120) \<and>
      ok (okResponse (BPulls (replicate 100 oldPull))) \<and>
      rs_body (okResponse (BPulls (replicate 100 oldPull))) = BPulls (replicate 100 oldPull) \<and>
      replicate 100 oldPull \<noteq> [] \<and> filter (keptSince weekAgo) (replicate 100 oldPull) = [] \<longrightarrow>
      pullPages (Suc 0) fullPagesHost ''t'' ''acme'' ''A'' (Some weekAgo) 1 [] startWorld =
        Some (Inr [], startWorld \<lparr> w_requests := w_requests startWorld @ [GetPulls ''acme'' ''A'' 1],
                              w_clock := w_clock startWorld + int 120 \<rparr>)"
    by (rule fetchPullRequests_since[THEN conjunct2, THEN conjunct2, THEN conjunct1])
  have p: "pullPages 1 fullPagesHost ''t'' ''acme'' ''A'' (Some weekAgo) 1 [] startWorld =
     Some (Inr [],
           startWorld \<lparr> w_requests := w_requests startWorld @ [GetPulls ''acme'' ''A'' 1],
                        w_clock := w_clock startWorld + int 120 \<rparr>)"
    using B n o b ne f by simp
  from twoPulls_run k kn oa f p fullPages_run show ?thesis by simp
qed

text \<open>
  When the answer comes from the cache, the filter is not applied.  The cache key holds
  only the day of the since-date, so a second call on the same day within the 30 minutes
  is answered with the list of the first: here the second call, twenty minutes later with
  a since-date twenty minutes later, returns the pull request last updated ten minutes
  after the first since-date, without a request to the server.
\<close>

lemma first_run:
  "fetchPullRequests 11 cachingHost ''t'' ''acme'' ''A'' (Some weekAgo) startWorld =
     Some (Inr [basicPR edgePull], cachedWorld)"
  by code_simp

lemma later_run:
  "fetchPullRequests 11 cachingHost ''t'' ''acme'' ''A'' (Some (weekAgo + 1200000)) laterWorld =
     Some (Inr [basicPR edgePull], laterWorld)"
  by code_simp

lemma edge_date: "effectiveDate edgePull = DAt (weekAgo + 600000)"
  by code_simp

lemma edge_out: "\<not> keptSince (weekAgo + 1200000) edgePull"
  by code_simp

theorem fetchPullRequests_cached_counterexample:
  "fetchPullRequests 11 cachingHost ''t'' ''acme'' ''A'' (Some weekAgo) startWorld =
     Some (Inr [basicPR edgePull], cachedWorld) \<and>
   fetchPullRequests 11 cachingHost ''t'' ''acme'' ''A'' (Some (weekAgo + 1200000)) laterWorld =
     Some (Inr [basicPR edgePull], laterWorld) \<and>
   w_requests laterWorld = [GetPulls ''acme'' ''A'' 1] \<and>
   effectiveDate edgePull = DAt (weekAgo + 600000) \<and>
   \<not> keptSince (weekAgo + 1200000) edgePull"
  using first_run later_run edge_date edge_out
  by (simp add: laterWorld_def cachedWorld_def)

section \<open>Statistics that are still being computed\<close>

lemma getFromCache_miss_later:
  assumes "fst (getFromCache parse now key st) = None" and "now \<le> now'"
  shows "fst (getFromCache parse now' key (snd (getFromCache parse now key st))) = None"
proof (cases "getItem st (CACHE_PREFIX @ key)")
  case None
  then show ?thesis by (simp add: getFromCache_def)
next
  case (Some cached)
  show ?thesis
  proof (cases "cached = []")
    case True
    with Some show ?thesis by (simp add: getFromCache_def)
  next
    case False
    show ?thesis
    proof (cases "parse cached")
      case None
      with Some False show ?thesis by (simp add: getFromCache_def)
    next
      case (Some dt)
      obtain d ts where dt: "dt = (d, ts)" by (cases dt)
      show ?thesis
      proof (cases "expired now ts")
        case True
        with \<open>getItem st (CACHE_PREFIX @ key) = Some cached\<close> False Some dt show ?thesis
          by (simp add: getFromCache_def getItem_removeItem)
      next
        case ne: False
        with \<open>getItem st (CACHE_PREFIX @ key) = Some cached\<close> False Some dt assms(1)
        have "d = None" by (simp add: getFromCache_def)
        with \<open>getItem st (CACHE_PREFIX @ key) = Some cached\<close> False Some dt ne show ?thesis
          by (simp add: getFromCache_def)
      qed
    qed
  qed
qed

lemma cacheGet_miss_later:
  assumes "fst (cacheGet parse key w) = None"
    and "w_storage w' = w_storage (snd (cacheGet parse key w))"
    and "w_clock w \<le> w_clock w'"
  shows "fst (cacheGet parse key w') = None"
  using assms getFromCache_miss_later[of parse "w_clock w" key "w_storage w" "w_clock w'"]
  by (simp add: cacheGet_def)

lemma cacheGet_frame:
  "w_requests (snd (cacheGet parse key w)) = w_requests w \<and>
   w_sleeps (snd (cacheGet parse key w)) = w_sleeps w \<and>
   w_clock (snd (cacheGet parse key w)) = w_clock w"
  by (simp add: cacheGet_def)

lemma statsAttempt_computing:
  assumes "fst (cacheGet (h_parseStats h) (statsKey org repo) w) = None"
    and "h_net h token (w_requests w) (GetStats org repo) = (Response r, dt)"
    and "rs_status r = 202"
  shows "statsAttempt h token org repo w =
     StatsComputing (snd (cacheGet (h_parseStats h) (statsKey org repo) w)
        \<lparr> w_requests := w_requests w @ [GetStats org repo],
          w_clock := w_clock w + int dt \<rparr>)"
proof -
  obtain w0 where c: "cacheGet (h_parseStats h) (statsKey org repo) w = (None, w0)"
    using assms(1) by (cases "cacheGet (h_parseStats h) (statsKey org repo) w") auto
  have "w_requests w0 = w_requests w" "w_clock w0 = w_clock w"
    using cacheGet_frame[of "h_parseStats h" "statsKey org repo" w] c by simp_all
  with c assms(2,3) show ?thesis
    by (simp add: statsAttempt_def fetch_def)
qed

lemma fetchStats_computing:
  assumes "fst (cacheGet (h_parseStats h) (statsKey org repo) w) = None"
    and "\<forall>k \<le> retries. \<exists>r dt.
           h_net h token (w_requests w @ replicate k (GetStats org repo)) (GetStats org repo) =
             (Response r, dt) \<and> rs_status r = 202"
  shows "\<exists>w1. fetchStats h token org repo retries w = fallbackStats h token org repo w1 \<and>
           w_requests w1 = w_requests w @ replicate (Suc retries) (GetStats org repo) \<and>
           w_sleeps w1 = w_sleeps w @ replicate retries 1500"
  using assms
proof (induction retries arbitrary: w)
  case 0
  then obtain r dt where n: "h_net h token (w_requests w) (GetStats org repo) = (Response r, dt)"
    and s: "rs_status r = 202" by force
  let ?w1 = "snd (cacheGet (h_parseStats h) (statsKey org repo) w)
      \<lparr> w_requests := w_requests w @ [GetStats org repo], w_clock := w_clock w + int dt \<rparr>"
  from statsAttempt_computing[OF "0.prems"(1) n s]
  have "fetchStats h token org repo 0 w = fallbackStats h token org repo ?w1" by simp
  moreover have "w_requests ?w1 = w_requests w @ replicate (Suc 0) (GetStats org repo)" by simp
  moreover have "w_sleeps ?w1 = w_sleeps w @ replicate 0 1500" by (simp add: cacheGet_frame)
  ultimately show ?case by blast
next
  case (Suc retries)
  from Suc.prems(2) obtain r dt where
    n: "h_net h token (w_requests w) (GetStats org repo) = (Response r, dt)"
    and s: "rs_status r = 202" by force
  let ?w0 = "snd (cacheGet (h_parseStats h) (statsKey org repo) w)"
  let ?w1 = "?w0 \<lparr> w_requests := w_requests w @ [GetStats org repo], w_clock := w_clock w + int dt \<rparr>"
  let ?w2 = "sleep 1500 ?w1"
  have a: "statsAttempt h token org repo w = StatsComputing ?w1"
    by (rule statsAttempt_computing[OF Suc.prems(1) n s])
  have miss: "fst (cacheGet (h_parseStats h) (statsKey org repo) ?w2) = None"
    by (rule cacheGet_miss_later[OF Suc.prems(1)]) (simp_all add: sleep_def)
  have rq: "w_requests ?w2 = w_requests w @ [GetStats org repo]" by (simp add: sleep_def)
  have "\<forall>k \<le> retries. \<exists>r dt.
      h_net h token (w_requests ?w2 @ replicate k (GetStats org repo)) (GetStats org repo) =
        (Response r, dt) \<and> rs_status r = 202"
  proof (intro allI impI)
    fix k assume "k \<le> retries"
    then have "Suc k \<le> Suc retries" by simp
    with Suc.prems(2) obtain r dt where
      "h_net h token (w_requests w @ replicate (Suc k) (GetStats org repo)) (GetStats org repo) =
        (Response r, dt) \<and> rs_status r = 202" by blast
    then show "\<exists>r dt. h_net h token (w_requests ?w2 @ replicate k (GetStats org repo)) (GetStats org repo) =
        (Response r, dt) \<and> rs_status r = 202"
      unfolding rq by auto
  qed
  from Suc.IH[OF miss this] obtain w1 where
    f: "fetchStats h token org repo retries ?w2 = fallbackStats h token org repo w1"
    and r1: "w_requests w1 = w_requests ?w2 @ replicate (Suc retries) (GetStats org repo)"
    and s1: "w_sleeps w1 = w_sleeps ?w2 @ replicate retries 1500" by blast
  have "fetchStats h token org repo (Suc retries) w = fallbackStats h token org repo w1"
    using a f by simp
  moreover have "w_requests w1 = w_requests w @ replicate (Suc (Suc retries)) (GetStats org repo)"
    using r1 rq by simp
  moreover have "w_sleeps w1 = w_sleeps w @ replicate (Suc retries) 1500"
    using s1 by (simp add: sleep_def cacheGet_frame replicate_append_same)
  ultimately show ?case by blast
qed

lemma sleeps_fetch: "w_sleeps (snd (fetch h token req w)) = w_sleeps w"
  by (simp add: fetch_def)

lemma sleeps_recentPages:
  "w_sleeps (snd (recentPages n h token org repo since page cs w)) = w_sleeps w"
proof (induction n arbitrary: page cs w)
  case 0
  then show ?case by simp
next
  case (Suc n)
  obtain o1 w1 where f: "fetch h token (GetRecentCommits org repo page since) w = (o1, w1)"
    by (cases "fetch h token (GetRecentCommits org repo page since) w")
  then have s: "w_sleeps w1 = w_sleeps w"
    using sleeps_fetch[of h token "GetRecentCommits org repo page since" w] by simp
  show ?case
    using f s Suc.IH
    by (simp split: outcome.splits body.splits)
qed

lemma sleeps_commitDetails:
  "w_sleeps (snd (commitDetails h token org repo cs stats w)) = w_sleeps w"
proof (induction cs arbitrary: stats w)
  case Nil
  then show ?case by simp
next
  case (Cons c cs)
  obtain o1 w1 where f: "fetch h token (GetCommitDetail org repo (rc_sha c)) w = (o1, w1)"
    by (cases "fetch h token (GetCommitDetail org repo (rc_sha c)) w")
  then have s: "w_sleeps w1 = w_sleeps w"
    using sleeps_fetch[of h token "GetCommitDetail org repo (rc_sha c)" w] by simp
  show ?case
    using f s Cons.IH
    by (simp split: outcome.splits body.splits option.splits)
qed

lemma sleeps_fetchCommitsAsStats:
  "w_sleeps (snd (fetchCommitsAsStats h token org repo w)) = w_sleeps w"
proof -
  obtain c w0 where g: "cacheGet (h_parseStats h) (commitsStatsKey org repo) w = (c, w0)"
    by (cases "cacheGet (h_parseStats h) (commitsStatsKey org repo) w")
  then have s0: "w_sleeps w0 = w_sleeps w"
    using cacheGet_frame[of "h_parseStats h" "commitsStatsKey org repo" w] by simp
  show ?thesis
  proof (cases c)
    case (Some cached)
    with g s0 show ?thesis by (simp add: fetchCommitsAsStats_def)
  next
    case None
    with g s0 show ?thesis
      by (simp add: fetchCommitsAsStats_def split_beta Let_def cachePut_def
          sleeps_commitDetails sleeps_recentPages split: sum.splits)
  qed
qed

lemma sleeps_fallbackStats:
  "w_sleeps (snd (fallbackStats h token org repo w)) = w_sleeps w"
  by (simp add: fallbackStats_def sleeps_fetchCommitsAsStats)

lemma sleeps_statsAttempt:
  "(statsAttempt h token org repo w = StatsDone res \<longrightarrow> w_sleeps (snd res) = w_sleeps w) \<and>
   (statsAttempt h token org repo w = StatsComputing w1 \<longrightarrow> w_sleeps w1 = w_sleeps w) \<and>
   (statsAttempt h token org repo w = StatsFallback w1 \<longrightarrow> w_sleeps w1 = w_sleeps w)"
proof -
  obtain c w0 where g: "cacheGet (h_parseStats h) (statsKey org repo) w = (c, w0)"
    by (cases "cacheGet (h_parseStats h) (statsKey org repo) w")
  then have s0: "w_sleeps w0 = w_sleeps w"
    using cacheGet_frame[of "h_parseStats h" "statsKey org repo" w] by simp
  obtain o1 w2 where f: "fetch h token (GetStats org repo) w0 = (o1, w2)"
    by (cases "fetch h token (GetStats org repo) w0")
  then have s2: "w_sleeps w2 = w_sleeps w"
    using sleeps_fetch[of h token "GetStats org repo" w0] s0 by simp
  show ?thesis
    unfolding statsAttempt_def g
    using s0 f s2
    by (auto simp: cachePut_def split: option.splits outcome.splits body.splits if_splits)
qed

lemma fetchStats_sleeps:
  "\<exists>j \<le> retries. w_sleeps (snd (fetchStats h token org repo retries w)) =
     w_sleeps w @ replicate j 1500"
proof (induction retries arbitrary: w)
  case 0
  have "w_sleeps (snd (fetchStats h token org repo 0 w)) = w_sleeps w"
    using sleeps_statsAttempt[of h token org repo w]
    by (cases "statsAttempt h token org repo w") (simp_all add: sleeps_fallbackStats)
  then show ?case by simp
next
  case (Suc retries)
  show ?case
  proof (cases "statsAttempt h token org repo w")
    case (StatsDone res)
    with sleeps_statsAttempt[of h token org repo w res] show ?thesis
      by (intro exI[of _ 0]) simp
  next
    case (StatsFallback w1)
    with sleeps_statsAttempt[of h token org repo w _ w1] show ?thesis
      by (intro exI[of _ 0]) (simp add: sleeps_fallbackStats)
  next
    case (StatsComputing w1)
    with sleeps_statsAttempt[of h token org repo w _ w1] have s: "w_sleeps w1 = w_sleeps w"
      by simp
    from Suc.IH[of "sleep 1500 w1"] obtain j where j: "j \<le> retries"
      and e: "w_sleeps (snd (fetchStats h token org repo retries (sleep 1500 w1))) =
        w_sleeps (sleep 1500 w1) @ replicate j 1500" by blast
    have "w_sleeps (snd (fetchStats h token org repo (Suc retries) w)) =
        w_sleeps w @ replicate (Suc j) 1500"
      using StatsComputing e s by (simp add: sleep_def)
    with j show ?thesis by (intro exI[of _ "Suc j"]) simp
  qed
qed

lemma addAuthorCommit_throws:
  "(\<exists>e. addAuthorCommit tz stats am c = Inl e) =
     (\<exists>login. rc_login c = Some login \<and> login \<noteq> [] \<and> inherited login)"
  by (cases "rc_login c") (auto simp: addAuthorCommit_def)

lemma foldE_addAuthorCommit:
  "(\<exists>e. foldE (addAuthorCommit tz stats) am cs = Inl e) =
     (\<exists>c \<in> set cs. \<exists>login. rc_login c = Some login \<and> login \<noteq> [] \<and> inherited login)"
proof (induction cs arbitrary: am)
  case Nil
  then show ?case by simp
next
  case (Cons c cs)
  show ?case
  proof (cases "addAuthorCommit tz stats am c")
    case (Inl e)
    then have "\<exists>login. rc_login c = Some login \<and> login \<noteq> [] \<and> inherited login"
      using addAuthorCommit_throws[of tz stats am c] by blast
    with Inl show ?thesis by auto
  next
    case (Inr am')
    then have "\<not> (\<exists>login. rc_login c = Some login \<and> login \<noteq> [] \<and> inherited login)"
      using addAuthorCommit_throws[of tz stats am c] by auto
    with Inr Cons.IH[of am'] show ?thesis by auto
  qed
qed

lemma foldE_addAuthorCommit_error:
  "foldE (addAuthorCommit tz stats) am cs = Inl e \<Longrightarrow> e = TypeError"
proof (induction cs arbitrary: am)
  case Nil
  then show ?case by simp
next
  case (Cons c cs)
  show ?case
  proof (cases "addAuthorCommit tz stats am c")
    case (Inl e')
    then have "e' = TypeError"
      by (cases "rc_login c") (auto simp: addAuthorCommit_def split: if_splits)
    with Inl Cons.prems show ?thesis by simp
  next
    case (Inr am')
    with Cons.prems Cons.IH[of am'] show ?thesis by simp
  qed
qed

text \<open>
  While the statistics are still being computed: if nothing is cached for the statistics
  of the repository and the endpoint answers 202 to the first request and to each of the
  \<open>retries\<close> requests that follow, \<^verbatim>\<open>fetchStats\<close> sends exactly \<open>retries + 1\<close> requests to
  it, waits 1500 ms after each but the last, and then returns or throws what
  \<^verbatim>\<open>fetchCommitsAsStats\<close> returns or throws.  Whatever the server answers, \<^verbatim>\<open>fetchStats\<close>
  waits at most \<open>retries\<close> times, 1500 ms each time.  The default of \<open>retries\<close> is 3.
\<close>

lemma fetchStats_computing_run:
  "(fst (cacheGet (h_parseStats h) (statsKey org repo) w) = None \<and>
    (\<forall>k \<le> retries. \<exists>r dt.
        h_net h token (w_requests w @ replicate k (GetStats org repo)) (GetStats org repo) =
          (Response r, dt) \<and> rs_status r = 202) \<longrightarrow>
      (\<exists>w1. fetchStats h token org repo retries w = fetchCommitsAsStats h token org repo w1 \<and>
            w_requests w1 = w_requests w @ replicate (Suc retries) (GetStats org repo) \<and>
            w_sleeps w1 = w_sleeps w @ replicate retries 1500 \<and>
            w_sleeps (snd (fetchStats h token org repo retries w)) =
              w_sleeps w @ replicate retries 1500)) \<and>
   (\<exists>j \<le> retries. w_sleeps (snd (fetchStats h token org repo retries w)) =
      w_sleeps w @ replicate j 1500)"
proof (intro conjI impI)
  assume a: "fst (cacheGet (h_parseStats h) (statsKey org repo) w) = None \<and>
    (\<forall>k \<le> retries. \<exists>r dt.
        h_net h token (w_requests w @ replicate k (GetStats org repo)) (GetStats org repo) =
          (Response r, dt) \<and> rs_status r = 202)"
  from a have a1: "fst (cacheGet (h_parseStats h) (statsKey org repo) w) = None"
    and a2: "\<forall>k \<le> retries. \<exists>r dt.
        h_net h token (w_requests w @ replicate k (GetStats org repo)) (GetStats org repo) =
          (Response r, dt) \<and> rs_status r = 202"
    by simp_all
  from fetchStats_computing[OF a1 a2] obtain w1 where
    f: "fetchStats h token org repo retries w = fallbackStats h token org repo w1"
    and r: "w_requests w1 = w_requests w @ replicate (Suc retries) (GetStats org repo)"
    and s: "w_sleeps w1 = w_sleeps w @ replicate retries 1500" by blast
  have "w_sleeps (snd (fetchStats h token org repo retries w)) = w_sleeps w @ replicate retries 1500"
    unfolding f using s by (simp add: sleeps_fallbackStats)
  with f r s show "\<exists>w1. fetchStats h token org repo retries w = fetchCommitsAsStats h token org repo w1 \<and>
            w_requests w1 = w_requests w @ replicate (Suc retries) (GetStats org repo) \<and>
            w_sleeps w1 = w_sleeps w @ replicate retries 1500 \<and>
            w_sleeps (snd (fetchStats h token org repo retries w)) =
              w_sleeps w @ replicate retries 1500"
    unfolding fallbackStats_def by blast
next
  show "\<exists>j \<le> retries. w_sleeps (snd (fetchStats h token org repo retries w)) =
      w_sleeps w @ replicate j 1500"
    by (rule fetchStats_sleeps)
qed

text \<open>
  \<^verbatim>\<open>fetchCommitsAsStats\<close> throws exactly when, with nothing cached, one of the commits
  listed has an author whose login names a property of \<^verbatim>\<open>Object.prototype\<close>.
\<close>

lemma fetchCommitsAsStats_throws:
  assumes "fst (cacheGet (h_parseStats h) (commitsStatsKey org repo) w) = None"
  shows "(\<exists>e. fst (fetchCommitsAsStats h token org repo w) = Inl e) =
     (\<exists>c \<in> set (fst (recentPages 3 h token org repo
                       (h_yearBefore h (w_clock w)) 1 []
                       (snd (cacheGet (h_parseStats h) (commitsStatsKey org repo) w)))).
        \<exists>login. rc_login c = Some login \<and> login \<noteq> [] \<and> inherited login)"
proof -
  obtain w0 where g: "cacheGet (h_parseStats h) (commitsStatsKey org repo) w = (None, w0)"
    using assms by (cases "cacheGet (h_parseStats h) (commitsStatsKey org repo) w") auto
  have c0: "w_clock w0 = w_clock w"
    using cacheGet_frame[of "h_parseStats h" "commitsStatsKey org repo" w] g by simp
  obtain cs w1 where r: "recentPages 3 h token org repo (h_yearBefore h (w_clock w)) 1 [] w0 = (cs, w1)"
    by (cases "recentPages 3 h token org repo (h_yearBefore h (w_clock w)) 1 [] w0")
  obtain stats w2 where d: "commitDetails h token org repo (take 50 cs) [] w1 = (stats, w2)"
    by (cases "commitDetails h token org repo (take 50 cs) [] w1")
  have "(\<exists>e. fst (fetchCommitsAsStats h token org repo w) = Inl e) =
      (\<exists>e. foldE (addAuthorCommit (h_tz h) stats) [] cs = Inl e)"
    unfolding fetchCommitsAsStats_def g
    using r d c0
    by (cases "foldE (addAuthorCommit (h_tz h) stats) [] cs") simp_all
  then show ?thesis
    unfolding foldE_addAuthorCommit g using r by simp
qed

lemma computing_run:
  "fetchStats computingHost ''t'' ''acme'' ''A'' 3 startWorld =
     (Inr [aliceStat],
      startWorld
        \<lparr> w_clock := 1700000004940,
          w_requests :=
            [GetStats ''acme'' ''A'', GetStats ''acme'' ''A'', GetStats ''acme'' ''A'',
             GetStats ''acme'' ''A'', GetRecentCommits ''acme'' ''A'' 1 1668464004700,
             GetCommitDetail ''acme'' ''A'' ''0123456789abcdef'',
             GetCommitDetail ''acme'' ''A'' ''1111111111111111''],
          w_sleeps := [1500, 1500, 1500] \<rparr>)"
  by code_simp

text \<open>
  C6.  The statistics endpoint answers 202 to the first request and to the three
  retries, and the one commit that the commits API lists has an author with the login
  \<open>constructor\<close>.  \<^verbatim>\<open>fetchStats\<close> has then sent four requests to the endpoint and waited
  three times 1500 ms, has gone on to \<^verbatim>\<open>fetchCommitsAsStats\<close>, and throws a
  \<^verbatim>\<open>TypeError\<close>.  On the same server with the login \<open>alice\<close> it returns the statistics
  derived from the commits.
\<close>

theorem fetchStats_inherited_login_throws:
  "fetchStats constructorHost ''t'' ''acme'' ''A'' 3 startWorld =
     (Inl TypeError,
      startWorld
        \<lparr> w_clock := 1700000004870,
          w_requests :=
            [GetStats ''acme'' ''A'', GetStats ''acme'' ''A'', GetStats ''acme'' ''A'',
             GetStats ''acme'' ''A'', GetRecentCommits ''acme'' ''A'' 1 1668464004700,
             GetCommitDetail ''acme'' ''A'' ''0123456789abcdef''],
          w_sleeps := [1500, 1500, 1500] \<rparr>) \<and>
   fetchStats computingHost ''t'' ''acme'' ''A'' 3 startWorld =
     (Inr [aliceStat],
      startWorld
        \<lparr> w_clock := 1700000004940,
          w_requests :=
            [GetStats ''acme'' ''A'', GetStats ''acme'' ''A'', GetStats ''acme'' ''A'',
             GetStats ''acme'' ''A'', GetRecentCommits ''acme'' ''A'' 1 1668464004700,
             GetCommitDetail ''acme'' ''A'' ''0123456789abcdef'',
             GetCommitDetail ''acme'' ''A'' ''1111111111111111''],
          w_sleeps := [1500, 1500, 1500] \<rparr>)"
proof -
  have "fetchStats constructorHost ''t'' ''acme'' ''A'' 3 startWorld =
     (Inl TypeError,
      startWorld
        \<lparr> w_clock := 1700000004870,
          w_requests :=
            [GetStats ''acme'' ''A'', GetStats ''acme'' ''A'', GetStats ''acme'' ''A'',
             GetStats ''acme'' ''A'', GetRecentCommits ''acme'' ''A'' 1 1668464004700,
             GetCommitDetail ''acme'' ''A'' ''0123456789abcdef''],
          w_sleeps := [1500, 1500, 1500] \<rparr>)"
    by code_simp
  with computing_run show ?thesis by simp
qed

section \<open>The orchestrator\<close>
























end
